theory Spec2Isabelle
  imports Main
begin

section \<open>Python values and exceptions\<close>

text \<open>
  The scraper of \<^verbatim>\<open>x2text_main.py\<close> builds its output out of Python dicts, lists,
  strings, numbers and \<^verbatim>\<open>None\<close>, and dumps them with \<^verbatim>\<open>json.dump\<close>. Those values
  are the type \<open>json\<close>. A dict is an association list in insertion order; reading a key is
  \<open>map_of\<close>, and \<open>dict_set\<close> is the assignment \<^verbatim>\<open>d[k] = v\<close>, which replaces the value of
  a key that is there and appends a key that is new.
\<close>

datatype json =
    JNull
  | JBool bool
  | JInt int
  | JStr string
  | JList "json list"
  | JDict "(string \<times> json) list"

type_synonym pydict = "(string \<times> json) list"

fun dict_set :: "'k \<Rightarrow> 'v \<Rightarrow> ('k \<times> 'v) list \<Rightarrow> ('k \<times> 'v) list" where
  "dict_set k v [] = [(k, v)]"
| "dict_set k v ((k', v') # kvs) =
     (if k' = k then (k, v) # kvs else (k', v') # dict_set k v kvs)"

definition keys :: "('k \<times> 'v) list \<Rightarrow> 'k list" where
  "keys d = map fst d"

text \<open>
  Every exception of the source is a value. \<open>AttributeError\<close> is the read of an
  attribute the object does not have, \<open>KeyError\<close> the subscript of a dict by a key it does
  not hold, \<open>TypeError\<close> the subscript or the iteration of a value that allows neither
  (\<^verbatim>\<open>None\<close>, or a parsed JSON value that is no dict). \<open>TooManyRequests\<close> is
  tweepy's rate-limit exception, \<open>APIError\<close> any other exception the client raises
  (transport, authentication, HTTP errors), \<open>OSError\<close> a failed \<^verbatim>\<open>open\<close>.
\<close>

datatype error =
    AttributeError
  | KeyError
  | TypeError
  | TooManyRequests
  | APIError
  | OSError

definition ebind :: "error + 'a \<Rightarrow> ('a \<Rightarrow> error + 'b) \<Rightarrow> error + 'b" where
  "ebind m f = (case m of Inl e \<Rightarrow> Inl e | Inr x \<Rightarrow> f x)"

text \<open>
  The objects tweepy hands over are read by attribute. An attribute of such an object is
  in one of three states: the object does not carry it (\<open>No_attribute\<close>: a hand-built
  object without it, or a plain dict where the source expects an object with attributes),
  it holds \<^verbatim>\<open>None\<close> (\<open>Is_None\<close>: what tweepy stores for a field the payload lacks), or
  it holds a value. \<open>read\<close> is the unguarded read \<^verbatim>\<open>obj.field\<close>, which raises only in
  the first state; \<open>hasattr\<close> and \<open>getattr_json\<close> are \<^verbatim>\<open>hasattr(obj, 'field')\<close> and
  \<^verbatim>\<open>getattr(obj, 'field', default)\<close>; \<open>truthy\<close> is the guard
  \<^verbatim>\<open>hasattr(obj, 'field') and obj.field\<close> on a list, and \<open>elements\<close> the list it then
  iterates.
\<close>

datatype 'a attribute = No_attribute | Is_None | Has 'a

definition read :: "'a attribute \<Rightarrow> error + 'a option" where
  "read a =
     (case a of
        No_attribute \<Rightarrow> Inl AttributeError
      | Is_None \<Rightarrow> Inr None
      | Has x \<Rightarrow> Inr (Some x))"

definition hasattr :: "'a attribute \<Rightarrow> bool" where
  "hasattr a = (a \<noteq> No_attribute)"

definition opt_json :: "('a \<Rightarrow> json) \<Rightarrow> 'a option \<Rightarrow> json" where
  "opt_json enc v = (case v of None \<Rightarrow> JNull | Some x \<Rightarrow> enc x)"

definition getattr_json :: "('a \<Rightarrow> json) \<Rightarrow> 'a attribute \<Rightarrow> json \<Rightarrow> json" where
  "getattr_json enc a dflt =
     (case a of
        No_attribute \<Rightarrow> dflt
      | Is_None \<Rightarrow> JNull
      | Has x \<Rightarrow> enc x)"

definition truthy :: "'a list attribute \<Rightarrow> bool" where
  "truthy a = (case a of Has xs \<Rightarrow> xs \<noteq> [] | _ \<Rightarrow> False)"

definition elements :: "'a list attribute \<Rightarrow> 'a list" where
  "elements a = (case a of Has xs \<Rightarrow> xs | _ \<Rightarrow> [])"

text \<open>
  The lookup of an account reads a single attribute, the id of the user it is given; there
  an attribute is an \<open>option\<close>, \<open>None\<close> when the object does not carry it, and \<open>attr\<close> is
  the unguarded read.
\<close>

definition attr :: "'a option \<Rightarrow> error + 'a" where
  "attr a = (case a of None \<Rightarrow> Inl AttributeError | Some x \<Rightarrow> Inr x)"

definition subscript :: "pydict \<Rightarrow> string \<Rightarrow> error + json" where
  "subscript d k = (case map_of d k of None \<Rightarrow> Inl KeyError | Some v \<Rightarrow> Inr v)"

section \<open>The raw page\<close>

text \<open>
  A \<^verbatim>\<open>datetime\<close> is kept as the string its \<^verbatim>\<open>isoformat()\<close> returns; the scraper does
  nothing else with it. \<open>isoformat_of\<close> is the call \<^verbatim>\<open>obj.created_at.isoformat()\<close>: it
  raises \<^verbatim>\<open>AttributeError\<close> when the object has no \<^verbatim>\<open>created_at\<close>, and also when
  \<^verbatim>\<open>created_at\<close> is \<^verbatim>\<open>None\<close>, which has no \<^verbatim>\<open>isoformat\<close>.
\<close>

datatype datetime = Datetime string

fun isoformat :: "datetime \<Rightarrow> string" where
  "isoformat (Datetime s) = s"

definition isoformat_of :: "datetime attribute \<Rightarrow> error + string" where
  "isoformat_of a =
     (case a of
        Has d \<Rightarrow> Inr (isoformat d)
      | _ \<Rightarrow> Inl AttributeError)"

text \<open>
  \<open>author\<close> is a user of the side table \<^verbatim>\<open>includes['users']\<close>, \<open>media_obj\<close> a record of
  \<^verbatim>\<open>includes['media']\<close>, \<open>ref\<close> an entry of \<^verbatim>\<open>tweet.referenced_tweets\<close>. The posts of
  \<^verbatim>\<open>includes['tweets']\<close> are tweets like those of the page.
\<close>

record author =
  a_id :: "int attribute"
  a_name :: "string attribute"
  a_username :: "string attribute"
  a_description :: "string attribute"
  a_public_metrics :: "pydict attribute"
  a_verified :: "bool attribute"
  a_profile_image_url :: "string attribute"

record media_obj =
  media_key :: "string attribute"
  media_type :: "string attribute"
  media_url :: "string attribute"
  alt_text :: "string attribute"
  media_public_metrics :: "pydict attribute"

record ref =
  ref_type :: "string attribute"
  ref_id :: "int attribute"

record attachments_obj =
  media_keys :: "string list attribute"

record entities_obj =
  hashtags :: "pydict list attribute"
  mentions :: "pydict list attribute"
  urls :: "pydict list attribute"

record tweet =
  tweet_id :: "int attribute"
  tweet_text :: "string attribute"
  created_at :: "datetime attribute"
  author_id :: "int attribute"
  lang :: "string attribute"
  source :: "string attribute"
  public_metrics :: "pydict attribute"
  attachments :: "attachments_obj attribute"
  referenced_tweets :: "ref list attribute"
  entities :: "entities_obj attribute"

text \<open>
  \<^verbatim>\<open>includes\<close> (the field \<open>includes_d\<close>) and \<^verbatim>\<open>meta\<close> are dicts of the response that
  the source only tests for a key (\<^verbatim>\<open>'users' in tweets_response.includes\<close>,
  \<^verbatim>\<open>'next_token' in tweets.meta\<close>) and reads at that key: a field is \<open>None\<close> when the key
  is not in the dict. \<^verbatim>\<open>data\<close> is \<open>None\<close> or a list; \<^verbatim>\<open>not tweets.data\<close> holds for
  \<open>None\<close> and for the empty list.
\<close>

record includes_obj =
  users :: "author list option"
  media :: "media_obj list option"
  tweets :: "tweet list option"

record meta_obj =
  next_token :: "string option"

record response =
  data :: "tweet list option"
  includes_d :: includes_obj
  meta :: meta_obj

definition falsy :: "'a list option \<Rightarrow> bool" where
  "falsy d = (case d of None \<Rightarrow> True | Some xs \<Rightarrow> xs = [])"

section \<open>Normalisation: \<^verbatim>\<open>_process_tweets\<close>\<close>

text \<open>
  The dict comprehension \<^verbatim>\<open>{user.id: user for user in ...}\<close>: the key attribute is read
  unguarded on every element, and a later element replaces an earlier one with the same
  key. A key may be \<^verbatim>\<open>None\<close>, so the keys of the table are options.
\<close>

fun dict_of ::
  "('a \<Rightarrow> 'k attribute) \<Rightarrow> 'a list \<Rightarrow> ('k option \<rightharpoonup> 'a) \<Rightarrow> error + ('k option \<rightharpoonup> 'a)" where
  "dict_of key [] d = Inr d"
| "dict_of key (x # xs) d =
     ebind (read (key x)) (\<lambda>k. dict_of key xs (d(k \<mapsto> x)))"

definition lookup_table ::
  "('a \<Rightarrow> 'k attribute) \<Rightarrow> 'a list option \<Rightarrow> error + ('k option \<rightharpoonup> 'a)" where
  "lookup_table key side =
     (case side of
        None \<Rightarrow> Inr Map.empty
      | Some xs \<Rightarrow> dict_of key xs Map.empty)"

text \<open>
  \<^verbatim>\<open>author.public_metrics['followers_count']\<close>: the read of the attribute, then the
  subscript, which raises \<^verbatim>\<open>TypeError\<close> on \<^verbatim>\<open>None\<close> and \<^verbatim>\<open>KeyError\<close> on a dict
  without the key.
\<close>

definition user_metric :: "author \<Rightarrow> string \<Rightarrow> error + json" where
  "user_metric a k =
     ebind (read (a_public_metrics a)) (\<lambda>pm.
       case pm of
         None \<Rightarrow> Inl TypeError
       | Some d \<Rightarrow> subscript d k)"

definition author_info_of :: "author \<Rightarrow> error + json" where
  "author_info_of a =
     ebind (read (a_id a)) (\<lambda>i.
     ebind (read (a_name a)) (\<lambda>n.
     ebind (read (a_username a)) (\<lambda>u.
     ebind (read (a_description a)) (\<lambda>d.
     ebind (user_metric a ''followers_count'') (\<lambda>fc.
     ebind (user_metric a ''following_count'') (\<lambda>fg.
     ebind (user_metric a ''tweet_count'') (\<lambda>tc.
     Inr (JDict
       [(''id'', opt_json JInt i),
        (''name'', opt_json JStr n),
        (''username'', opt_json JStr u),
        (''description'', opt_json JStr d),
        (''followers_count'', fc),
        (''following_count'', fg),
        (''tweet_count'', tc),
        (''verified'', getattr_json JBool (a_verified a) (JBool False)),
        (''profile_image_url'', getattr_json JStr (a_profile_image_url a) JNull)]))))))))"

definition author_of :: "(int option \<rightharpoonup> author) \<Rightarrow> tweet \<Rightarrow> error + json" where
  "author_of users_d t =
     ebind (read (author_id t)) (\<lambda>aid.
       case users_d aid of
         None \<Rightarrow> Inr JNull
       | Some a \<Rightarrow> author_info_of a)"

definition media_item_of :: "string \<Rightarrow> media_obj \<Rightarrow> error + json" where
  "media_item_of k m =
     ebind (read (media_type m)) (\<lambda>ty.
       let media_item =
             [(''type'', opt_json JStr ty),
              (''media_key'', JStr k),
              (''url'', getattr_json JStr (media_url m) JNull),
              (''alt_text'', getattr_json JStr (alt_text m) JNull)]
       in Inr (JDict
            (if hasattr (media_public_metrics m)
             then dict_set ''metrics'' (getattr_json JDict (media_public_metrics m) JNull)
                    media_item
             else media_item)))"

fun media_loop :: "(string option \<rightharpoonup> media_obj) \<Rightarrow> string list \<Rightarrow> error + json list" where
  "media_loop media_d [] = Inr []"
| "media_loop media_d (k # ks) =
     (case media_d (Some k) of
        None \<Rightarrow> media_loop media_d ks
      | Some m \<Rightarrow>
          ebind (media_item_of k m) (\<lambda>item.
          ebind (media_loop media_d ks) (\<lambda>items. Inr (item # items))))"

text \<open>
  The guard is \<^verbatim>\<open>hasattr(tweet, 'attachments') and hasattr(tweet.attachments,
  'media_keys')\<close>: it fails when \<^verbatim>\<open>attachments\<close> is \<^verbatim>\<open>None\<close>, and it lets a
  \<^verbatim>\<open>media_keys\<close> that is \<^verbatim>\<open>None\<close> through to the \<^verbatim>\<open>for\<close>, which raises
  \<^verbatim>\<open>TypeError\<close>.
\<close>

definition media_items_of :: "(string option \<rightharpoonup> media_obj) \<Rightarrow> tweet \<Rightarrow> error + json list" where
  "media_items_of media_d t =
     (case attachments t of
        Has att \<Rightarrow>
          (case media_keys att of
             No_attribute \<Rightarrow> Inr []
           | Is_None \<Rightarrow> Inl TypeError
           | Has ks \<Rightarrow> media_loop media_d ks)
      | _ \<Rightarrow> Inr [])"

definition ref_data_of :: "(int option \<rightharpoonup> tweet) \<Rightarrow> ref \<Rightarrow> error + json" where
  "ref_data_of tweets_lookup r =
     ebind (read (ref_type r)) (\<lambda>ty.
     ebind (read (ref_id r)) (\<lambda>i.
       let ref_data = [(''type'', opt_json JStr ty), (''id'', opt_json JInt i)] in
       case tweets_lookup i of
         None \<Rightarrow> Inr (JDict ref_data)
       | Some ref_tweet \<Rightarrow>
           ebind (read (tweet_text ref_tweet)) (\<lambda>tx.
           ebind (isoformat_of (created_at ref_tweet)) (\<lambda>ca.
             let ref_data1 = dict_set ''text'' (opt_json JStr tx) ref_data;
                 ref_data2 = dict_set ''created_at'' (JStr ca) ref_data1
             in Inr (JDict
                  (if hasattr (public_metrics ref_tweet)
                   then dict_set ''public_metrics''
                          (getattr_json JDict (public_metrics ref_tweet) JNull) ref_data2
                   else ref_data2))))))"

fun emap :: "('a \<Rightarrow> error + 'b) \<Rightarrow> 'a list \<Rightarrow> error + 'b list" where
  "emap f [] = Inr []"
| "emap f (x # xs) =
     ebind (f x) (\<lambda>y.
     ebind (emap f xs) (\<lambda>ys. Inr (y # ys)))"

definition referenced_of :: "(int option \<rightharpoonup> tweet) \<Rightarrow> tweet \<Rightarrow> error + json list" where
  "referenced_of tweets_lookup t =
     (if truthy (referenced_tweets t)
      then emap (ref_data_of tweets_lookup) (elements (referenced_tweets t))
      else Inr [])"

text \<open>
  The entities: the dict starts with its three keys at the empty list, and a key is
  assigned only under its two guards, \<^verbatim>\<open>hasattr(tweet.entities, k)\<close> and the list being
  non-empty. The comprehensions subscript every item unguarded. When \<^verbatim>\<open>tweet.entities\<close>
  is \<^verbatim>\<open>None\<close> the three inner guards fail, as they do on a dict.
\<close>

definition hashtag_of :: "pydict \<Rightarrow> error + json" where
  "hashtag_of tag = subscript tag ''tag''"

definition mention_of :: "pydict \<Rightarrow> error + json" where
  "mention_of mention =
     ebind (subscript mention ''username'') (\<lambda>u.
     ebind (subscript mention ''id'') (\<lambda>i.
     Inr (JDict [(''username'', u), (''id'', i)])))"

definition url_of :: "pydict \<Rightarrow> error + json" where
  "url_of url =
     ebind (subscript url ''url'') (\<lambda>u.
     ebind (subscript url ''expanded_url'') (\<lambda>e.
     Inr (JDict [(''url'', u), (''expanded_url'', e)])))"

definition entity_step ::
  "string \<Rightarrow> (pydict \<Rightarrow> error + json) \<Rightarrow> pydict list attribute \<Rightarrow> pydict \<Rightarrow> error + pydict" where
  "entity_step k f raw ents =
     (if truthy raw
      then ebind (emap f (elements raw)) (\<lambda>vs. Inr (dict_set k (JList vs) ents))
      else Inr ents)"

definition entities_of :: "tweet \<Rightarrow> error + pydict" where
  "entities_of t =
     (let ents = [(''hashtags'', JList []), (''mentions'', JList []), (''urls'', JList [])]
      in case entities t of
           Has e \<Rightarrow>
             ebind (entity_step ''hashtags'' hashtag_of (hashtags e) ents) (\<lambda>ents1.
             ebind (entity_step ''mentions'' mention_of (mentions e) ents1) (\<lambda>ents2.
             entity_step ''urls'' url_of (urls e) ents2))
         | _ \<Rightarrow> Inr ents)"

definition list_or_null :: "json list \<Rightarrow> json" where
  "list_or_null xs = (if xs = [] then JNull else JList xs)"

definition process_tweet ::
  "(int option \<rightharpoonup> author) \<Rightarrow> (string option \<rightharpoonup> media_obj) \<Rightarrow> (int option \<rightharpoonup> tweet) \<Rightarrow>
   tweet \<Rightarrow> error + json" where
  "process_tweet users_d media_d tweets_lookup t =
     ebind (author_of users_d t) (\<lambda>author_info.
     ebind (media_items_of media_d t) (\<lambda>media_items.
     ebind (referenced_of tweets_lookup t) (\<lambda>refs.
     ebind (entities_of t) (\<lambda>ents.
     ebind (read (tweet_id t)) (\<lambda>i.
     ebind (read (tweet_text t)) (\<lambda>tx.
     ebind (isoformat_of (created_at t)) (\<lambda>ca.
     Inr (JDict
       [(''id'', opt_json JInt i),
        (''text'', opt_json JStr tx),
        (''created_at'', JStr ca),
        (''lang'', getattr_json JStr (lang t) JNull),
        (''source'', getattr_json JStr (source t) JNull),
        (''public_metrics'', getattr_json JDict (public_metrics t) JNull),
        (''author'', author_info),
        (''media'', list_or_null media_items),
        (''referenced_tweets'', list_or_null refs),
        (''entities'', JDict ents)]))))))))"

definition process_tweets :: "response \<Rightarrow> error + json list" where
  "process_tweets tweets_response =
     (if falsy (data tweets_response) then Inr []
      else
        ebind (lookup_table a_id (users (includes_d tweets_response))) (\<lambda>users_d.
        ebind (lookup_table media_key (media (includes_d tweets_response))) (\<lambda>media_d.
        ebind (lookup_table tweet_id (tweets (includes_d tweets_response))) (\<lambda>tweets_lookup.
        emap (process_tweet users_d media_d tweets_lookup) (the (data tweets_response))))))"

section \<open>What the program does to the world\<close>

text \<open>
  The program logs, sleeps, calls the client and writes files. A run is described by the
  list of these events in the order they happen. A log entry is its level and its
  message; the messages are those of the source, with the values they interpolate.
\<close>

datatype level = INFO | WARNING | ERROR

datatype message =
    Sample_credentials_file_created string
  | Please_fill_in_your_API_credentials string
  | API_credentials_have_not_been_updated string
  | Invalid_JSON_in_credentials_file string
  | Error_reading_credentials error
  | Successfully_authenticated
  | Authentication_failed error
  | User_not_found string
  | Error_getting_user_ID string error
  | Rate_limit_hit
  | Error_fetching_tweets error
  | Processing_tweets_for_user string
  | Could_not_find_user_ID string
  | Retrieved_tweets nat string
  | Saved_tweets nat string
  | Saved_combined_data
  | Execution_complete

datatype event =
    Log level message
  | Get_user string
  | Get_users_tweets int "string option"
  | Sleep nat
  | Write_json string json
  | Makedirs
  | Save_user_data string "json list"
  | Save_combined "(string \<times> json list) list"

definition emit :: "event list \<Rightarrow> ('a \<times> event list) option \<Rightarrow> ('a \<times> event list) option" where
  "emit evs r = (case r of None \<Rightarrow> None | Some (x, tr) \<Rightarrow> Some (x, evs @ tr))"

section \<open>The pagination loop: \<^verbatim>\<open>get_user_tweets\<close>\<close>

text \<open>
  One call of \<^verbatim>\<open>self.client.get_users_tweets\<close> returns a page or raises. What the client
  does during one call of \<^verbatim>\<open>get_user_tweets\<close> is the list of what its successive calls
  do; the loop may ask for more answers than the list holds, and then the run has no
  result within the list (\<open>None\<close>).
\<close>

datatype fetch = Page response | Raise error

text \<open>The slice \<^verbatim>\<open>xs[:n]\<close> of Python, where a negative \<open>n\<close> counts from the end.\<close>

definition slice_to :: "'a list \<Rightarrow> int \<Rightarrow> 'a list" where
  "slice_to xs n = (if 0 \<le> n then take (nat n) xs else take (length xs - nat (- n)) xs)"

datatype step =
    Break "json list"
  | Continue "json list" "string option"

text \<open>
  The body of \<^verbatim>\<open>while True\<close>. \<open>try_body\<close> is the \<^verbatim>\<open>try\<close> block, after the client
  has answered: it ends in one of the three \<^verbatim>\<open>break\<close>s, falls through to the next
  pass with the token of the page, or raises. \<open>iteration\<close> adds the two handlers.
\<close>

definition try_body :: "int \<Rightarrow> fetch \<Rightarrow> json list \<Rightarrow> error + (step \<times> event list)" where
  "try_body max_tweets f all_tweets =
     (case f of
        Raise e \<Rightarrow> Inl e
      | Page tweets_r \<Rightarrow>
          if falsy (data tweets_r) then Inr (Break all_tweets, [])
          else
            ebind (process_tweets tweets_r) (\<lambda>processed.
              let all_tweets1 = all_tweets @ processed in
              if max_tweets \<le> int (length all_tweets1)
              then Inr (Break (slice_to all_tweets1 max_tweets), [])
              else
                (case next_token (meta tweets_r) of
                   Some t \<Rightarrow> Inr (Continue all_tweets1 (Some t), [Sleep 1])
                 | None \<Rightarrow> Inr (Break all_tweets1, []))))"

definition iteration ::
  "int \<Rightarrow> int \<Rightarrow> fetch \<Rightarrow> json list \<Rightarrow> string option \<Rightarrow> step \<times> event list" where
  "iteration uid max_tweets f all_tweets pagination_token =
     (case try_body max_tweets f all_tweets of
        Inr (s, evs) \<Rightarrow> (s, Get_users_tweets uid pagination_token # evs)
      | Inl e \<Rightarrow>
          if e = TooManyRequests
          then (Continue all_tweets pagination_token,
                [Get_users_tweets uid pagination_token, Log WARNING Rate_limit_hit, Sleep (15 * 60)])
          else (Break all_tweets,
                [Get_users_tweets uid pagination_token, Log ERROR (Error_fetching_tweets e)]))"

fun get_user_tweets_loop ::
  "fetch list \<Rightarrow> int \<Rightarrow> int \<Rightarrow> json list \<Rightarrow> string option \<Rightarrow> (json list \<times> event list) option" where
  "get_user_tweets_loop [] uid max_tweets all_tweets pagination_token = None"
| "get_user_tweets_loop (f # fs) uid max_tweets all_tweets pagination_token =
     (case iteration uid max_tweets f all_tweets pagination_token of
        (Break result, evs) \<Rightarrow> Some (result, evs)
      | (Continue all_tweets1 token1, evs) \<Rightarrow>
          emit evs (get_user_tweets_loop fs uid max_tweets all_tweets1 token1))"

definition get_user_tweets ::
  "fetch list \<Rightarrow> int \<Rightarrow> int \<Rightarrow> (json list \<times> event list) option" where
  "get_user_tweets fs uid max_tweets = get_user_tweets_loop fs uid max_tweets [] None"

section \<open>Account resolution: \<^verbatim>\<open>get_user_id\<close>\<close>

text \<open>
  \<^verbatim>\<open>self.client.get_user\<close> returns a response whose \<^verbatim>\<open>data\<close> is the user or is empty,
  or raises. Of the user only \<^verbatim>\<open>id\<close> is read.
\<close>

record user =
  user_id :: "int option"

datatype user_fetch = User_response "user option" | User_raise error

definition get_user_id_try :: "user_fetch \<Rightarrow> string \<Rightarrow> error + (int option \<times> event list)" where
  "get_user_id_try f uname =
     (case f of
        User_raise e \<Rightarrow> Inl e
      | User_response d \<Rightarrow>
          (case d of
             Some u \<Rightarrow> ebind (attr (user_id u)) (\<lambda>i. Inr (Some i, []))
           | None \<Rightarrow> Inr (None, [Log ERROR (User_not_found uname)])))"

definition get_user_id :: "user_fetch \<Rightarrow> string \<Rightarrow> int option \<times> event list" where
  "get_user_id f uname =
     (case get_user_id_try f uname of
        Inr (r, evs) \<Rightarrow> (r, Get_user uname # evs)
      | Inl e \<Rightarrow> (None, [Get_user uname, Log ERROR (Error_getting_user_ID uname e)]))"

section \<open>The orchestrator: \<^verbatim>\<open>follow_users\<close>\<close>

text \<open>
  For each configured handle the platform answers the lookup and then the page requests,
  and the file system lets the per-account file be written or not: an \<open>account\<close> is what
  they do for one handle of the list, \<open>save_reply\<close> being the exception that
  \<^verbatim>\<open>open\<close> or \<^verbatim>\<open>json.dump\<close> raises in \<^verbatim>\<open>_save_user_data\<close>, if any.
  \<^verbatim>\<open>follow_users\<close> calls \<^verbatim>\<open>_save_user_data\<close> without a \<^verbatim>\<open>try\<close>: an exception of the
  write leaves \<^verbatim>\<open>follow_users\<close>, which then returns no mapping (\<open>Inl\<close>) and does not reach
  the handles that follow. \<open>all_data\<close> is the dict from handle to posts, in insertion
  order. \<^verbatim>\<open>not user_id\<close> holds for \<^verbatim>\<open>None\<close> and for the id 0.
\<close>

record account =
  user_reply :: user_fetch
  tweets_replies :: "fetch list"
  save_reply :: "error option"

type_synonym all_data = "(string \<times> json list) list"

fun follow_users_loop ::
  "(string \<times> account) list \<Rightarrow> int \<Rightarrow> all_data \<Rightarrow> ((error + all_data) \<times> event list) option" where
  "follow_users_loop [] tweets_per_user all_data = Some (Inr all_data, [])"
| "follow_users_loop ((uname, acct) # rest) tweets_per_user all_data =
     (case get_user_id (user_reply acct) uname of
        (uid, ev1) \<Rightarrow>
          if uid = None \<or> uid = Some 0
          then emit (Log INFO (Processing_tweets_for_user uname) # ev1 @
                       [Log WARNING (Could_not_find_user_ID uname)])
                 (follow_users_loop rest tweets_per_user all_data)
          else
            (case get_user_tweets (tweets_replies acct) (the uid) tweets_per_user of
               None \<Rightarrow> None
             | Some (tweets_l, ev2) \<Rightarrow>
                 if tweets_l \<noteq> []
                 then
                   (case save_reply acct of
                      None \<Rightarrow>
                        emit (Log INFO (Processing_tweets_for_user uname) # ev1 @ ev2 @
                                [Log INFO (Retrieved_tweets (length tweets_l) uname),
                                 Save_user_data uname tweets_l,
                                 Log INFO (Saved_tweets (length tweets_l) uname)])
                          (follow_users_loop rest tweets_per_user
                             (dict_set uname tweets_l all_data))
                    | Some e \<Rightarrow>
                        Some (Inl e,
                              Log INFO (Processing_tweets_for_user uname) # ev1 @ ev2 @
                                [Log INFO (Retrieved_tweets (length tweets_l) uname)]))
                 else emit (Log INFO (Processing_tweets_for_user uname) # ev1 @ ev2 @
                              [Log INFO (Retrieved_tweets (length tweets_l) uname)])
                        (follow_users_loop rest tweets_per_user all_data)))"

definition follow_users ::
  "(string \<times> account) list \<Rightarrow> int \<Rightarrow> ((error + all_data) \<times> event list) option" where
  "follow_users accounts tweets_per_user = follow_users_loop accounts tweets_per_user []"

section \<open>Credentials and start-up\<close>

text \<open>
  \<^verbatim>\<open>open\<close> and \<^verbatim>\<open>json.load\<close> fail or give the parsed value of the credentials file.
  \<^verbatim>\<open>exit(1)\<close> ends the process: a run of a start-up function either exits with a code or
  returns a value, and carries the events up to that point.
\<close>

datatype file_read = Open_fails | Json_decode_error | Loaded json

datatype 'a run = Exit nat "event list" | Return 'a "event list"

definition sample :: json where
  "sample = JDict
     [(''consumer_key'', JStr ''YOUR_CONSUMER_KEY''),
      (''consumer_secret'', JStr ''YOUR_CONSUMER_SECRET''),
      (''access_token'', JStr ''YOUR_ACCESS_TOKEN''),
      (''access_token_secret'', JStr ''YOUR_ACCESS_TOKEN_SECRET''),
      (''bearer_token'', JStr ''YOUR_BEARER_TOKEN'')]"

definition create_sample_credentials :: "string \<Rightarrow> event list" where
  "create_sample_credentials file_path =
     [Write_json file_path sample, Log INFO (Sample_credentials_file_created file_path)]"

text \<open>The subscript \<^verbatim>\<open>credentials[k]\<close> of a parsed JSON value, which need not be a dict.\<close>

fun json_subscript :: "json \<Rightarrow> string \<Rightarrow> error + json" where
  "json_subscript (JDict d) k = subscript d k"
| "json_subscript v k = Inl TypeError"

definition load_credentials :: "file_read \<Rightarrow> string \<Rightarrow> json run" where
  "load_credentials f file_path =
     (case f of
        Open_fails \<Rightarrow> Exit 1 [Log ERROR (Error_reading_credentials OSError)]
      | Json_decode_error \<Rightarrow>
          Exit 1 (Log ERROR (Invalid_JSON_in_credentials_file file_path) #
                  create_sample_credentials file_path @
                  [Log INFO (Please_fill_in_your_API_credentials file_path)])
      | Loaded credentials \<Rightarrow>
          (case json_subscript credentials ''consumer_key'' of
             Inl e \<Rightarrow> Exit 1 [Log ERROR (Error_reading_credentials e)]
           | Inr v \<Rightarrow>
               if v = JStr ''YOUR_CONSUMER_KEY''
               then Exit 1 [Log ERROR (API_credentials_have_not_been_updated file_path)]
               else Return credentials []))"

definition authenticate :: "json \<Rightarrow> unit run" where
  "authenticate credentials =
     (case ebind (json_subscript credentials ''bearer_token'') (\<lambda>_.
           ebind (json_subscript credentials ''consumer_key'') (\<lambda>_.
           ebind (json_subscript credentials ''consumer_secret'') (\<lambda>_.
           ebind (json_subscript credentials ''access_token'') (\<lambda>_.
           json_subscript credentials ''access_token_secret'')))) of
        Inl e \<Rightarrow> Exit 1 [Log ERROR (Authentication_failed e)]
      | Inr _ \<Rightarrow> Return () [Log INFO Successfully_authenticated])"

definition scraper_init :: "bool \<Rightarrow> file_read \<Rightarrow> string \<Rightarrow> json run" where
  "scraper_init file_exists f credentials_file =
     (if \<not> file_exists
      then Exit 1 (create_sample_credentials credentials_file @
                   [Log INFO (Please_fill_in_your_API_credentials credentials_file)])
      else
        (case load_credentials f credentials_file of
           Exit c evs \<Rightarrow> Exit c evs
         | Return credentials evs \<Rightarrow>
             (case authenticate credentials of
                Exit c evs2 \<Rightarrow> Exit c (evs @ evs2)
              | Return _ evs2 \<Rightarrow> Return credentials (evs @ evs2 @ [Makedirs]))))"

definition usernames :: "string list" where
  "usernames = [''elonmusk'', ''WhiteHouse'', ''realDonaldTrump'', ''POTUS'', ''SecDef'', ''SecRubio'']"

text \<open>
  \<^verbatim>\<open>main\<close>: the exit code and the events of the whole run, given whether the credentials
  file exists, what reading it gives, what the platform and the file system do for each
  handle, and the exception that writing the combined file raises, if any. An exception
  that leaves \<^verbatim>\<open>follow_users\<close> or the write of the combined file is caught nowhere: the
  interpreter ends the process with code 1.
\<close>

definition main ::
  "bool \<Rightarrow> file_read \<Rightarrow> (string \<Rightarrow> account) \<Rightarrow> error option \<Rightarrow> (nat \<times> event list) option" where
  "main file_exists f platform combined_reply =
     (case scraper_init file_exists f ''twitter_credentials.json'' of
        Exit c evs \<Rightarrow> Some (c, evs)
      | Return _ evs \<Rightarrow>
          (case follow_users (map (\<lambda>u. (u, platform u)) usernames) 50 of
             None \<Rightarrow> None
           | Some (Inl e, evs2) \<Rightarrow> Some (1, evs @ evs2)
           | Some (Inr d, evs2) \<Rightarrow>
               (case combined_reply of
                  None \<Rightarrow>
                    Some (0, evs @ evs2 @
                      [Save_combined d, Log INFO Saved_combined_data, Log INFO Execution_complete])
                | Some e \<Rightarrow> Some (1, evs @ evs2))))"

fun network :: "event \<Rightarrow> bool" where
  "network (Get_user _) = True"
| "network (Get_users_tweets _ _) = True"
| "network _ = False"

section \<open>Notions used to state the properties\<close>

text \<open>
  \<open>field k j\<close> reads key \<open>k\<close> of an output dict. \<open>raw_kind sel t\<close> is one kind of entity of
  a raw post: the attribute under \<^verbatim>\<open>tweet.entities\<close>, which the post does not carry when
  it has no entities object (no attribute, or \<^verbatim>\<open>None\<close>). \<open>val\<close> is the value an attribute
  holds, \<open>holds_value\<close> tells whether it holds one.
\<close>

definition field :: "string \<Rightarrow> json \<Rightarrow> json option" where
  "field k j = (case j of JDict d \<Rightarrow> map_of d k | _ \<Rightarrow> None)"


definition opt_list :: "'a list option \<Rightarrow> 'a list" where
  "opt_list xs = (case xs of None \<Rightarrow> [] | Some ys \<Rightarrow> ys)"

definition has_key :: "string \<Rightarrow> pydict \<Rightarrow> bool" where
  "has_key k d = (map_of d k \<noteq> None)"

definition val :: "'a attribute \<Rightarrow> 'a option" where
  "val a = (case a of Has x \<Rightarrow> Some x | _ \<Rightarrow> None)"

definition holds_value :: "'a attribute \<Rightarrow> bool" where
  "holds_value a = (case a of Has x \<Rightarrow> True | _ \<Rightarrow> False)"

text \<open>
  \<open>has_mandatory\<close>: a raw post carries its id, text and creation timestamp.
\<close>

definition has_mandatory :: "tweet \<Rightarrow> bool" where
  "has_mandatory t =
     (holds_value (tweet_id t) \<and> holds_value (tweet_text t) \<and> holds_value (created_at t))"

text \<open>
  The reads that \<^verbatim>\<open>_process_tweets\<close> makes without a guard, object by object, and what
  each needs in order not to raise. \<open>table_of\<close> is the lookup table of a side table (a
  later record replaces an earlier one with the same key), and \<open>keys_readable\<close> says that
  every record of the side table carries the key attribute, which the dict comprehension
  reads. Of an author, a media record and a referenced post only those are read that a
  post of the page refers to and that the table holds:
  \<^item> \<open>author_read_ok\<close>: the post carries \<^verbatim>\<open>author_id\<close> (which may hold \<^verbatim>\<open>None\<close>), and
    the author found under it, if any, carries \<^verbatim>\<open>id\<close>, \<^verbatim>\<open>name\<close>, \<^verbatim>\<open>username\<close>,
    \<^verbatim>\<open>description\<close> (each may hold \<^verbatim>\<open>None\<close>) and a \<^verbatim>\<open>public_metrics\<close> dict with the
    three counts;
  \<^item> \<open>media_reads_ok\<close>: \<^verbatim>\<open>media_keys\<close>, when the attachments carry it, is a list, and
    every media record found under one of its keys carries \<^verbatim>\<open>type\<close>;
  \<^item> \<open>ref_reads_ok\<close>: a reference carries \<^verbatim>\<open>type\<close> and \<^verbatim>\<open>id\<close>, and the post found
    under the id, if any, carries \<^verbatim>\<open>text\<close> and a \<^verbatim>\<open>created_at\<close> that is a timestamp;
  \<^item> \<open>entities_reads_ok\<close>: every item of a non-empty entity list has the keys that the
    comprehension subscripts;
  \<^item> \<open>post_reads_ok\<close>: all of these, and the post carries \<^verbatim>\<open>id\<close>, \<^verbatim>\<open>text\<close> and a
    \<^verbatim>\<open>created_at\<close> that is a timestamp.
  \<open>reads_ok\<close> puts no demand on \<^verbatim>\<open>lang\<close>, \<^verbatim>\<open>source\<close>, \<^verbatim>\<open>public_metrics\<close>,
  \<^verbatim>\<open>attachments\<close>, \<^verbatim>\<open>referenced_tweets\<close> and \<^verbatim>\<open>entities\<close> of a post being there,
  nor on the three side tables being in \<^verbatim>\<open>includes\<close>, nor on a record of a side table
  that no post refers to, beyond its key. \<open>succeeds\<close> tells that a computation raised no
  exception.
\<close>

definition table_of :: "('a \<Rightarrow> 'k attribute) \<Rightarrow> 'a list option \<Rightarrow> ('k option \<rightharpoonup> 'a)" where
  "table_of key side = fold (\<lambda>x d. d(val (key x) \<mapsto> x)) (opt_list side) Map.empty"

definition keys_readable :: "('a \<Rightarrow> 'k attribute) \<Rightarrow> 'a list option \<Rightarrow> bool" where
  "keys_readable key side = list_all (\<lambda>x. hasattr (key x)) (opt_list side)"

definition author_reads_ok :: "author \<Rightarrow> bool" where
  "author_reads_ok a =
     (hasattr (a_id a) \<and> hasattr (a_name a) \<and> hasattr (a_username a) \<and>
      hasattr (a_description a) \<and>
      (case a_public_metrics a of
         Has pm \<Rightarrow> has_key ''followers_count'' pm \<and> has_key ''following_count'' pm \<and>
                   has_key ''tweet_count'' pm
       | _ \<Rightarrow> False))"

definition author_read_ok :: "(int option \<rightharpoonup> author) \<Rightarrow> tweet \<Rightarrow> bool" where
  "author_read_ok users_d t =
     (hasattr (author_id t) \<and>
      (case users_d (val (author_id t)) of None \<Rightarrow> True | Some a \<Rightarrow> author_reads_ok a))"

definition media_reads_ok :: "(string option \<rightharpoonup> media_obj) \<Rightarrow> tweet \<Rightarrow> bool" where
  "media_reads_ok media_d t =
     (case attachments t of
        Has att \<Rightarrow>
          (case media_keys att of
             No_attribute \<Rightarrow> True
           | Is_None \<Rightarrow> False
           | Has ks \<Rightarrow>
               list_all (\<lambda>k. case media_d (Some k) of
                               None \<Rightarrow> True
                             | Some m \<Rightarrow> hasattr (media_type m)) ks)
      | _ \<Rightarrow> True)"

definition ref_reads_ok :: "(int option \<rightharpoonup> tweet) \<Rightarrow> ref \<Rightarrow> bool" where
  "ref_reads_ok tweets_lookup r =
     (hasattr (ref_type r) \<and> hasattr (ref_id r) \<and>
      (case tweets_lookup (val (ref_id r)) of
         None \<Rightarrow> True
       | Some ref_tweet \<Rightarrow> hasattr (tweet_text ref_tweet) \<and> holds_value (created_at ref_tweet)))"

definition entities_reads_ok :: "tweet \<Rightarrow> bool" where
  "entities_reads_ok t =
     (case entities t of
        Has e \<Rightarrow>
          list_all (has_key ''tag'') (elements (hashtags e)) \<and>
          list_all (\<lambda>d. has_key ''username'' d \<and> has_key ''id'' d) (elements (mentions e)) \<and>
          list_all (\<lambda>d. has_key ''url'' d \<and> has_key ''expanded_url'' d) (elements (urls e))
      | _ \<Rightarrow> True)"

definition post_reads_ok ::
  "(int option \<rightharpoonup> author) \<Rightarrow> (string option \<rightharpoonup> media_obj) \<Rightarrow> (int option \<rightharpoonup> tweet) \<Rightarrow>
   tweet \<Rightarrow> bool" where
  "post_reads_ok users_d media_d tweets_lookup t =
     (author_read_ok users_d t \<and> media_reads_ok media_d t \<and>
      list_all (ref_reads_ok tweets_lookup) (elements (referenced_tweets t)) \<and>
      entities_reads_ok t \<and>
      hasattr (tweet_id t) \<and> hasattr (tweet_text t) \<and> holds_value (created_at t))"

definition reads_ok :: "response \<Rightarrow> bool" where
  "reads_ok r =
     (if falsy (data r) then True
      else
        keys_readable a_id (users (includes_d r)) \<and>
        keys_readable media_key (media (includes_d r)) \<and>
        keys_readable tweet_id (tweets (includes_d r)) \<and>
        list_all
          (post_reads_ok (table_of a_id (users (includes_d r)))
             (table_of media_key (media (includes_d r)))
             (table_of tweet_id (tweets (includes_d r))))
          (opt_list (data r)))"

definition succeeds :: "error + 'a \<Rightarrow> bool" where
  "succeeds m = (case m of Inr x \<Rightarrow> True | Inl e \<Rightarrow> False)"

text \<open>
  \<open>posts_of f\<close> are the records one answer of the client contributes: those of its page,
  none when it raised or when the page could not be normalised. \<open>fetched_posts\<close> are the
  records of a list of answers in fetch order, \<open>requests\<close> counts the page requests of a
  run, and \<open>breaks\<close> tells whether a pass of the loop left it.
\<close>

fun posts_of :: "fetch \<Rightarrow> json list" where
  "posts_of (Page r) = (case process_tweets r of Inr ps \<Rightarrow> ps | Inl e \<Rightarrow> [])"
| "posts_of (Raise e) = []"

definition fetched_posts :: "fetch list \<Rightarrow> json list" where
  "fetched_posts fs = concat (map posts_of fs)"

fun is_request :: "event \<Rightarrow> bool" where
  "is_request (Get_users_tweets _ _) = True"
| "is_request _ = False"

definition requests :: "event list \<Rightarrow> nat" where
  "requests tr = length (filter is_request tr)"

fun breaks :: "step \<Rightarrow> bool" where
  "breaks (Break _) = True"
| "breaks (Continue _ _) = False"

text \<open>
  Answers that never end the loop by themselves: a rate-limit signal, and a page with
  posts that normalises and carries a continuation token. For a list of such answers,
  \<open>passes_events\<close> are the requests, warnings and sleeps of the passes over them, starting
  with the token \<open>tok\<close>, and \<open>token_after\<close> is the token the loop holds after them.
\<close>

fun keeps_going :: "fetch \<Rightarrow> bool" where
  "keeps_going (Raise e) = (e = TooManyRequests)"
| "keeps_going (Page r) =
     (\<not> falsy (data r) \<and> succeeds (process_tweets r) \<and> next_token (meta r) \<noteq> None)"

fun passes_events :: "int \<Rightarrow> string option \<Rightarrow> fetch list \<Rightarrow> event list" where
  "passes_events uid tok [] = []"
| "passes_events uid tok (Raise e # fs) =
     Get_users_tweets uid tok # Log WARNING Rate_limit_hit # Sleep (15 * 60) #
       passes_events uid tok fs"
| "passes_events uid tok (Page r # fs) =
     Get_users_tweets uid tok # Sleep 1 # passes_events uid (next_token (meta r)) fs"

fun token_after :: "string option \<Rightarrow> fetch list \<Rightarrow> string option" where
  "token_after tok [] = tok"
| "token_after tok (Raise e # fs) = token_after tok fs"
| "token_after tok (Page r # fs) = token_after (next_token (meta r)) fs"

text \<open>
  \<open>fetch_yield\<close> is what one configured handle yields: nothing when the handle does not
  resolve or the client's answers run out, else the posts \<^verbatim>\<open>get_user_tweets\<close> returns.
  \<open>is_save\<close> picks the writes of per-account files out of a run.
\<close>

definition fetch_yield :: "string \<Rightarrow> account \<Rightarrow> int \<Rightarrow> json list option" where
  "fetch_yield uname acct n =
     (case get_user_id (user_reply acct) uname of
        (uid, evs) \<Rightarrow>
          if uid = None \<or> uid = Some 0 then None
          else map_option fst (get_user_tweets (tweets_replies acct) (the uid) n))"

fun is_save :: "event \<Rightarrow> bool" where
  "is_save (Save_user_data _ _) = True"
| "is_save _ = False"

section \<open>Example inputs\<close>

text \<open>
  A post as tweepy builds it from a payload with id, text, timestamp and author id only
  (every other attribute is there and holds \<^verbatim>\<open>None\<close>), the same post without author id,
  the record they are normalised to when no side table holds the author, a page without
  side tables, and a page whose first post has attachments, a reference and entities, with
  the three side tables.
\<close>

definition tweet0 :: tweet where
  "tweet0 = \<lparr>tweet_id = Is_None, tweet_text = Is_None, created_at = Is_None, author_id = Is_None,
     lang = Is_None, source = Is_None, public_metrics = Is_None, attachments = Is_None,
     referenced_tweets = Is_None, entities = Is_None\<rparr>"

definition post :: "int \<Rightarrow> tweet" where
  "post n = tweet0\<lparr>tweet_id := Has n, tweet_text := Has ''hello'',
     created_at := Has (Datetime ''2025-03-01T12:00:00+00:00''), author_id := Has 7\<rparr>"

definition anonymous :: "int \<Rightarrow> tweet" where
  "anonymous n = (post n)\<lparr>author_id := Is_None\<rparr>"

definition post_record :: "int \<Rightarrow> json" where
  "post_record n = JDict
     [(''id'', JInt n), (''text'', JStr ''hello''),
      (''created_at'', JStr ''2025-03-01T12:00:00+00:00''),
      (''lang'', JNull), (''source'', JNull), (''public_metrics'', JNull),
      (''author'', JNull), (''media'', JNull), (''referenced_tweets'', JNull),
      (''entities'', JDict [(''hashtags'', JList []), (''mentions'', JList []), (''urls'', JList [])])]"

definition no_includes :: includes_obj where
  "no_includes = \<lparr>users = None, media = None, tweets = None\<rparr>"

definition page :: "tweet list \<Rightarrow> string option \<Rightarrow> response" where
  "page ts tok = \<lparr>data = Some ts, includes_d = no_includes, meta = \<lparr>next_token = tok\<rparr>\<rparr>"

definition alice :: author where
  "alice = \<lparr>a_id = Has 7, a_name = Has ''Alice'', a_username = Has ''alice'',
     a_description = Is_None,
     a_public_metrics = Has [(''followers_count'', JInt 10), (''following_count'', JInt 2),
       (''tweet_count'', JInt 5)],
     a_verified = No_attribute, a_profile_image_url = Is_None\<rparr>"

definition photo :: media_obj where
  "photo = \<lparr>media_key = Has ''3_1'', media_type = Has ''photo'', media_url = Is_None,
     alt_text = Is_None, media_public_metrics = No_attribute\<rparr>"

definition rich_post :: tweet where
  "rich_post = (post 9)\<lparr>
     attachments := Has \<lparr>media_keys = Has [''3_1'', ''3_2'']\<rparr>,
     referenced_tweets := Has [\<lparr>ref_type = Has ''replied_to'', ref_id = Has 1\<rparr>],
     entities := Has \<lparr>hashtags = Has [[(''tag'', JStr ''isabelle'')]], mentions = No_attribute,
       urls = Has []\<rparr>\<rparr>"

definition rich_page :: response where
  "rich_page = \<lparr>data = Some [rich_post, post 2],
     includes_d = \<lparr>users = Some [alice], media = Some [photo], tweets = Some [post 1]\<rparr>,
     meta = \<lparr>next_token = None\<rparr>\<rparr>"

text \<open>
  Authors whose \<^verbatim>\<open>public_metrics\<close> is \<^verbatim>\<open>None\<close> (\<open>bob\<close>; \<open>dave\<close> is such an author whom
  no post refers to) or lacks one of its counts (\<open>carol\<close>); a page whose side table of
  users holds one author; the records \<^verbatim>\<open>_process_tweets\<close> gives for \<open>rich_page\<close>.
\<close>

definition bob :: author where
  "bob = alice\<lparr>a_public_metrics := Is_None\<rparr>"

definition carol :: author where
  "carol = alice\<lparr>a_public_metrics :=
     Has [(''followers_count'', JInt 10), (''tweet_count'', JInt 5)]\<rparr>"

definition dave :: author where
  "dave = bob\<lparr>a_id := Has 8\<rparr>"

definition page_with_author :: "author \<Rightarrow> tweet list \<Rightarrow> response" where
  "page_with_author a ts =
     \<lparr>data = Some ts, includes_d = no_includes\<lparr>users := Some [a]\<rparr>,
      meta = \<lparr>next_token = None\<rparr>\<rparr>"

definition alice_info :: json where
  "alice_info = JDict
     [(''id'', JInt 7), (''name'', JStr ''Alice''), (''username'', JStr ''alice''),
      (''description'', JNull), (''followers_count'', JInt 10),
      (''following_count'', JInt 2), (''tweet_count'', JInt 5), (''verified'', JBool False),
      (''profile_image_url'', JNull)]"

definition rich_records :: "json list" where
  "rich_records =
     [JDict
        [(''id'', JInt 9), (''text'', JStr ''hello''),
         (''created_at'', JStr ''2025-03-01T12:00:00+00:00''),
         (''lang'', JNull), (''source'', JNull), (''public_metrics'', JNull),
         (''author'', alice_info),
         (''media'',
          JList [JDict [(''type'', JStr ''photo''), (''media_key'', JStr ''3_1''),
                        (''url'', JNull), (''alt_text'', JNull)]]),
         (''referenced_tweets'',
          JList [JDict [(''type'', JStr ''replied_to''), (''id'', JInt 1),
                        (''text'', JStr ''hello''),
                        (''created_at'', JStr ''2025-03-01T12:00:00+00:00''),
                        (''public_metrics'', JNull)]]),
         (''entities'',
          JDict [(''hashtags'', JList [JStr ''isabelle'']), (''mentions'', JList []),
                 (''urls'', JList [])])],
      JDict
        [(''id'', JInt 2), (''text'', JStr ''hello''),
         (''created_at'', JStr ''2025-03-01T12:00:00+00:00''),
         (''lang'', JNull), (''source'', JNull), (''public_metrics'', JNull),
         (''author'', alice_info), (''media'', JNull), (''referenced_tweets'', JNull),
         (''entities'',
          JDict [(''hashtags'', JList []), (''mentions'', JList []), (''urls'', JList [])])]]"

text \<open>
  A first page of five posts with a continuation token, a last page of three, and their
  records.
\<close>

definition page_one :: response where
  "page_one = page [post 1, post 2, post 3, post 4, post 5] (Some ''T'')"

definition page_two :: response where
  "page_two = page [post 6, post 7, post 8] None"

definition records_one :: "json list" where
  "records_one = [post_record 1, post_record 2, post_record 3, post_record 4, post_record 5]"

definition records_two :: "json list" where
  "records_two = [post_record 6, post_record 7, post_record 8]"

text \<open>
  What the platform and the file system do for some handles: a fetch that fails after its
  first page, the same with a per-account file that cannot be written, a resolved handle
  without posts, a handle with one page of posts, an unknown handle, and a lookup that
  raises. \<open>half_filled\<close> is a credentials file in which only \<^verbatim>\<open>consumer_key\<close> was
  changed.
\<close>

definition found :: "int \<Rightarrow> user_fetch" where
  "found i = User_response (Some \<lparr>user_id = Some i\<rparr>)"

definition acct_error :: account where
  "acct_error = \<lparr>user_reply = found 7,
     tweets_replies = [Page page_one, Raise APIError, Page page_two], save_reply = None\<rparr>"

definition acct_error_disk_full :: account where
  "acct_error_disk_full = acct_error\<lparr>save_reply := Some OSError\<rparr>"

definition acct_empty :: account where
  "acct_empty = \<lparr>user_reply = found 8, tweets_replies = [Page (page [] None)],
     save_reply = None\<rparr>"

definition acct_full :: account where
  "acct_full = \<lparr>user_reply = found 9, tweets_replies = [Page page_two], save_reply = None\<rparr>"

definition acct_unknown :: account where
  "acct_unknown = \<lparr>user_reply = User_response None, tweets_replies = [], save_reply = None\<rparr>"

definition acct_unauthorized :: account where
  "acct_unauthorized = \<lparr>user_reply = User_raise APIError, tweets_replies = [],
     save_reply = None\<rparr>"

definition half_filled :: json where
  "half_filled = JDict
     [(''consumer_key'', JStr ''abc123''),
      (''consumer_secret'', JStr ''YOUR_CONSUMER_SECRET''),
      (''access_token'', JStr ''YOUR_ACCESS_TOKEN''),
      (''access_token_secret'', JStr ''YOUR_ACCESS_TOKEN_SECRET''),
      (''bearer_token'', JStr ''YOUR_BEARER_TOKEN'')]"

section \<open>Properties of the normaliser\<close>

lemma succeeds_simps: "succeeds (Inr x)" "\<not> succeeds (Inl e)"
  by (simp_all add: succeeds_def)

lemma succeeds_iff: "succeeds m \<longleftrightarrow> (\<exists>x. m = Inr x)"
  by (cases m) (simp_all add: succeeds_def)

lemma ebind_Inr: "ebind m f = Inr y \<longleftrightarrow> (\<exists>x. m = Inr x \<and> f x = Inr y)"
  by (simp add: ebind_def split: sum.splits)

lemma succeeds_ebind:
  "succeeds (ebind m f) \<longleftrightarrow> succeeds m \<and> (\<forall>x. m = Inr x \<longrightarrow> succeeds (f x))"
  by (cases m) (simp_all add: ebind_def succeeds_def)

lemma ex_Inr: "(\<exists>x. m = Inr x) = succeeds m" "(\<forall>x. m \<noteq> Inr x) = (\<not> succeeds m)"
  by (cases m; simp add: succeeds_def)+

lemma succeeds_read: "succeeds (read a) \<longleftrightarrow> hasattr a"
  by (cases a) (simp_all add: read_def hasattr_def succeeds_def)

lemma read_Inr: "read a = Inr x \<longleftrightarrow> hasattr a \<and> x = val a"
  by (cases a) (auto simp: read_def hasattr_def val_def)

lemma succeeds_isoformat_of: "succeeds (isoformat_of a) \<longleftrightarrow> holds_value a"
  by (cases a) (simp_all add: isoformat_of_def holds_value_def succeeds_def)

lemma succeeds_subscript: "succeeds (subscript d k) \<longleftrightarrow> has_key k d"
  by (auto simp: subscript_def has_key_def succeeds_def split: option.splits)

lemma emap_length: "emap f xs = Inr ys \<Longrightarrow> length ys = length xs"
  by (induction xs arbitrary: ys) (auto simp: ebind_Inr)

lemma emap_nth: "emap f xs = Inr ys \<Longrightarrow> i < length xs \<Longrightarrow> f (xs ! i) = Inr (ys ! i)"
proof (induction xs arbitrary: ys i)
  case Nil
  then show ?case by simp
next
  case (Cons x xs)
  then show ?case by (cases i) (auto simp: ebind_Inr)
qed

lemma succeeds_emap: "succeeds (emap f xs) \<longleftrightarrow> list_all (\<lambda>x. succeeds (f x)) xs"
  by (induction xs) (auto simp: succeeds_ebind ex_Inr succeeds_simps)

lemma dict_of_Inr:
  "dict_of key xs d = Inr d' \<longleftrightarrow>
     list_all (\<lambda>x. hasattr (key x)) xs \<and> d' = fold (\<lambda>x d. d(val (key x) \<mapsto> x)) xs d"
  by (induction xs arbitrary: d) (auto simp: ebind_Inr read_Inr)

lemma lookup_table_Inr:
  "lookup_table key side = Inr d \<longleftrightarrow> keys_readable key side \<and> d = table_of key side"
  by (cases side) (auto simp: lookup_table_def keys_readable_def table_of_def opt_list_def dict_of_Inr)

lemma succeeds_lookup_table: "succeeds (lookup_table key side) \<longleftrightarrow> keys_readable key side"
  by (simp add: ex_Inr(1) [symmetric] lookup_table_Inr)

lemma succeeds_user_metric:
  "succeeds (user_metric a k) \<longleftrightarrow> (case a_public_metrics a of Has pm \<Rightarrow> has_key k pm | _ \<Rightarrow> False)"
  by (cases "a_public_metrics a")
     (simp_all add: user_metric_def ebind_def read_def succeeds_def subscript_def has_key_def
        split: option.splits)

lemma succeeds_author_info_of: "succeeds (author_info_of a) \<longleftrightarrow> author_reads_ok a"
proof -
  have "succeeds (author_info_of a) \<longleftrightarrow>
      hasattr (a_id a) \<and> hasattr (a_name a) \<and> hasattr (a_username a) \<and> hasattr (a_description a) \<and>
      succeeds (user_metric a ''followers_count'') \<and> succeeds (user_metric a ''following_count'') \<and>
      succeeds (user_metric a ''tweet_count'')"
    by (auto simp: author_info_of_def succeeds_ebind ex_Inr succeeds_read succeeds_simps)
  then show ?thesis
    by (cases "a_public_metrics a") (simp_all add: succeeds_user_metric author_reads_ok_def)
qed

lemma succeeds_author_of: "succeeds (author_of ud t) \<longleftrightarrow> author_read_ok ud t"
  by (auto simp: author_of_def author_read_ok_def succeeds_ebind ex_Inr succeeds_read read_Inr
      succeeds_author_info_of succeeds_simps split: option.splits)

lemma succeeds_media_item_of: "succeeds (media_item_of k m) \<longleftrightarrow> hasattr (media_type m)"
  by (auto simp: media_item_of_def succeeds_ebind ex_Inr succeeds_read Let_def succeeds_simps)

lemma succeeds_media_loop:
  "succeeds (media_loop md ks) \<longleftrightarrow>
     list_all (\<lambda>k. case md (Some k) of None \<Rightarrow> True | Some m \<Rightarrow> hasattr (media_type m)) ks"
  by (induction ks) (auto simp: succeeds_ebind ex_Inr succeeds_simps succeeds_media_item_of
      split: option.splits)

lemma succeeds_media_items_of: "succeeds (media_items_of md t) \<longleftrightarrow> media_reads_ok md t"
  by (simp add: media_items_of_def media_reads_ok_def succeeds_media_loop succeeds_simps
      split: attribute.splits)

lemma succeeds_ref_data_of: "succeeds (ref_data_of tw r) \<longleftrightarrow> ref_reads_ok tw r"
  by (auto simp: ref_data_of_def ref_reads_ok_def succeeds_ebind ex_Inr succeeds_read read_Inr Let_def
      succeeds_isoformat_of succeeds_simps split: option.splits)

lemma succeeds_referenced_of:
  "succeeds (referenced_of tw t) \<longleftrightarrow> list_all (ref_reads_ok tw) (elements (referenced_tweets t))"
  by (cases "referenced_tweets t")
     (auto simp: referenced_of_def truthy_def elements_def succeeds_emap succeeds_ref_data_of
        succeeds_simps)

lemma succeeds_entity_step:
  "succeeds (entity_step k f raw ents) \<longleftrightarrow> list_all (\<lambda>d. succeeds (f d)) (elements raw)"
  by (cases raw)
     (auto simp: entity_step_def truthy_def elements_def succeeds_ebind ex_Inr succeeds_emap
        succeeds_simps)

lemma succeeds_entities_of: "succeeds (entities_of t) \<longleftrightarrow> entities_reads_ok t"
proof (cases "entities t")
  case (Has e)
  have h: "succeeds (hashtag_of d) \<longleftrightarrow> has_key ''tag'' d" for d
    by (simp add: hashtag_of_def succeeds_subscript)
  have m: "succeeds (mention_of d) \<longleftrightarrow> has_key ''username'' d \<and> has_key ''id'' d" for d
    by (auto simp: mention_of_def succeeds_ebind ex_Inr succeeds_subscript succeeds_simps)
  have u: "succeeds (url_of d) \<longleftrightarrow> has_key ''url'' d \<and> has_key ''expanded_url'' d" for d
    by (auto simp: url_of_def succeeds_ebind ex_Inr succeeds_subscript succeeds_simps)
  have "succeeds (entities_of t) \<longleftrightarrow>
      list_all (\<lambda>d. succeeds (hashtag_of d)) (elements (hashtags e)) \<and>
      list_all (\<lambda>d. succeeds (mention_of d)) (elements (mentions e)) \<and>
      list_all (\<lambda>d. succeeds (url_of d)) (elements (urls e))"
    using Has
    by (auto simp: entities_of_def succeeds_ebind ex_Inr succeeds_entity_step)
  then show ?thesis using Has by (simp add: entities_reads_ok_def h m u)
qed (simp_all add: entities_of_def entities_reads_ok_def succeeds_simps)

lemma succeeds_process_tweet:
  "succeeds (process_tweet ud md tw t) \<longleftrightarrow> post_reads_ok ud md tw t"
proof -
  have "succeeds (process_tweet ud md tw t) \<longleftrightarrow>
      succeeds (author_of ud t) \<and> succeeds (media_items_of md t) \<and>
      succeeds (referenced_of tw t) \<and> succeeds (entities_of t) \<and>
      hasattr (tweet_id t) \<and> hasattr (tweet_text t) \<and> succeeds (isoformat_of (created_at t))"
    by (auto simp: process_tweet_def succeeds_ebind ex_Inr succeeds_read succeeds_simps)
  then show ?thesis
    by (simp add: post_reads_ok_def succeeds_author_of succeeds_media_items_of
        succeeds_referenced_of succeeds_entities_of succeeds_isoformat_of)
qed

lemma succeeds_process_tweets: "succeeds (process_tweets r) \<longleftrightarrow> reads_ok r"
proof (cases "falsy (data r)")
  case True
  then show ?thesis by (simp add: process_tweets_def reads_ok_def succeeds_simps)
next
  case False
  then obtain ts where ts: "data r = Some ts" by (auto simp: falsy_def split: option.splits)
  have "succeeds (process_tweets r) \<longleftrightarrow>
      keys_readable a_id (users (includes_d r)) \<and>
      keys_readable media_key (media (includes_d r)) \<and>
      keys_readable tweet_id (tweets (includes_d r)) \<and>
      succeeds (emap (process_tweet (table_of a_id (users (includes_d r)))
             (table_of media_key (media (includes_d r)))
             (table_of tweet_id (tweets (includes_d r)))) ts)"
    using False ts
    by (auto simp: process_tweets_def succeeds_ebind ex_Inr succeeds_lookup_table lookup_table_Inr)
  then show ?thesis using False ts
    by (simp add: reads_ok_def succeeds_emap succeeds_process_tweet opt_list_def)
qed

lemmas model_defs = process_tweets_def process_tweet_def lookup_table_def ebind_def read_def
  hasattr_def opt_json_def truthy_def elements_def isoformat_of_def
  subscript_def getattr_json_def falsy_def author_of_def author_info_of_def user_metric_def
  media_items_of_def media_item_of_def referenced_of_def ref_data_of_def entities_of_def
  entity_step_def hashtag_of_def mention_of_def url_of_def list_or_null_def

lemmas ok_defs = reads_ok_def post_reads_ok_def author_read_ok_def author_reads_ok_def
  media_reads_ok_def ref_reads_ok_def entities_reads_ok_def keys_readable_def table_of_def
  has_mandatory_def holds_value_def val_def has_key_def opt_list_def hasattr_def elements_def
  falsy_def

lemmas example_defs = tweet0_def post_def anonymous_def no_includes_def page_def alice_def
  photo_def rich_post_def rich_page_def post_record_def bob_def carol_def dave_def
  page_with_author_def

lemma process_tweets_nth:
  assumes "process_tweets r = Inr recs" and "data r = Some ts"
  shows "length recs = length ts \<and>
         (\<exists>ud md tw. \<forall>i<length ts. process_tweet ud md tw (ts ! i) = Inr (recs ! i))"
proof (cases "ts = []")
  case True
  with assms show ?thesis by (simp add: process_tweets_def falsy_def)
next
  case False
  with assms obtain ud md tw where e: "emap (process_tweet ud md tw) ts = Inr recs"
    by (auto simp: process_tweets_def falsy_def ebind_Inr)
  then show ?thesis using emap_length [OF e] emap_nth [OF e] by blast
qed







lemma process_tweet_fields:
  "process_tweet ud md tw t = Inr p \<Longrightarrow>
     field ''id'' p = Some (opt_json JInt (val (tweet_id t))) \<and>
     field ''text'' p = Some (opt_json JStr (val (tweet_text t))) \<and>
     field ''created_at'' p = map_option (\<lambda>d. JStr (isoformat d)) (val (created_at t))"
  by (cases "created_at t")
     (auto simp: process_tweet_def ebind_Inr field_def read_Inr isoformat_of_def val_def)

lemma rich_page_records: "process_tweets rich_page = Inr rich_records"
  by (simp add: model_defs example_defs rich_records_def alice_info_def)

lemma rich_page_ok: "reads_ok rich_page"
  by (simp add: ok_defs example_defs)



lemma post_reads_ok_without_tables:
  "post_reads_ok ud md tw t \<Longrightarrow> post_reads_ok Map.empty Map.empty Map.empty t"
  by (auto simp: post_reads_ok_def author_read_ok_def media_reads_ok_def ref_reads_ok_def
      list_all_iff split: attribute.splits)

lemma reads_ok_without_tables: "reads_ok r \<Longrightarrow> reads_ok (r\<lparr>includes_d := no_includes\<rparr>)"
  using post_reads_ok_without_tables
  by (auto simp: reads_ok_def keys_readable_def table_of_def opt_list_def no_includes_def
      list_all_iff split: if_splits)

text \<open>
  Claim C9, as the code has it. Normalisation raises no error exactly on the pages where
  every read it makes without a guard finds what it reads (\<open>reads_ok\<close>): carrying id,
  text and timestamp is not enough, since \<^verbatim>\<open>public_metrics\<close> of the author a post refers
  to is subscripted without a guard, and so are the other reads that \<open>reads_ok\<close> lists.
  The optional attributes are all tolerated: a page that normalises still does when its
  side tables are taken out, a page without side tables normalises exactly when each post
  alone does, and a post with id, text, timestamp and the \<^verbatim>\<open>author_id\<close> attribute
  (holding an id or \<^verbatim>\<open>None\<close>) normalises without side tables whatever \<^verbatim>\<open>lang\<close>,
  \<^verbatim>\<open>source\<close> and \<^verbatim>\<open>public_metrics\<close> are and with \<^verbatim>\<open>attachments\<close>,
  \<^verbatim>\<open>referenced_tweets\<close> and \<^verbatim>\<open>entities\<close> absent, as \<^verbatim>\<open>None\<close> or as a missing
  attribute. A side table that is not in \<^verbatim>\<open>includes\<close> is the empty mapping.
\<close>

theorem normalize_succeeds_exactly_when_reads_succeed:
  "((\<exists>recs. process_tweets r = Inr recs) \<longleftrightarrow> reads_ok r) \<and>
   (reads_ok r \<longrightarrow> reads_ok (r\<lparr>includes_d := no_includes\<rparr>)) \<and>
   (reads_ok (r\<lparr>includes_d := no_includes\<rparr>) \<longleftrightarrow>
      falsy (data r) \<or> list_all (post_reads_ok Map.empty Map.empty Map.empty) (opt_list (data r))) \<and>
   (has_mandatory t \<and> hasattr (author_id t) \<longrightarrow>
      post_reads_ok Map.empty Map.empty Map.empty
        (t\<lparr>lang := l, source := s, public_metrics := pm, attachments := Is_None,
           referenced_tweets := Is_None, entities := Is_None\<rparr>) \<and>
      post_reads_ok Map.empty Map.empty Map.empty
        (t\<lparr>lang := l, source := s, public_metrics := pm, attachments := No_attribute,
           referenced_tweets := No_attribute, entities := No_attribute\<rparr>)) \<and>
   lookup_table a_id None = Inr Map.empty \<and>
   lookup_table media_key None = Inr Map.empty \<and>
   lookup_table tweet_id None = Inr Map.empty"
proof -
  have a: "(\<exists>recs. process_tweets r = Inr recs) \<longleftrightarrow> reads_ok r"
    using succeeds_process_tweets [of r] by (simp add: ex_Inr)
  have b: "reads_ok (r\<lparr>includes_d := no_includes\<rparr>) \<longleftrightarrow>
      falsy (data r) \<or> list_all (post_reads_ok Map.empty Map.empty Map.empty) (opt_list (data r))"
    by (simp add: reads_ok_def keys_readable_def table_of_def opt_list_def no_includes_def)
  have c: "post_reads_ok Map.empty Map.empty Map.empty
        (t\<lparr>lang := l, source := s, public_metrics := pm, attachments := Is_None,
           referenced_tweets := Is_None, entities := Is_None\<rparr>) \<and>
      post_reads_ok Map.empty Map.empty Map.empty
        (t\<lparr>lang := l, source := s, public_metrics := pm, attachments := No_attribute,
           referenced_tweets := No_attribute, entities := No_attribute\<rparr>)"
    if "has_mandatory t \<and> hasattr (author_id t)"
    using that
    by (cases "tweet_id t"; cases "tweet_text t")
       (simp_all add: post_reads_ok_def author_read_ok_def media_reads_ok_def
        entities_reads_ok_def elements_def has_mandatory_def holds_value_def hasattr_def)
  from a b c reads_ok_without_tables [of r] show ?thesis by (simp add: lookup_table_def)
qed

text \<open>
  The witness for C9: a page without side tables whose second post has no author id; a
  page whose side table holds an incomplete author that no post refers to; a post whose
  optional attributes are missing.
\<close>

theorem normalize_succeeds_witness:
  "reads_ok (page [post 1, anonymous 2] None) \<and>
   process_tweets (page [post 1, anonymous 2] None) = Inr [post_record 1, post_record 2] \<and>
   author_id (anonymous 2) = Is_None \<and>
   \<not> author_reads_ok dave \<and>
   reads_ok (page_with_author dave [post 1]) \<and>
   process_tweets (page_with_author dave [post 1]) = Inr [post_record 1] \<and>
   has_mandatory (post 1) \<and> hasattr (author_id (post 1)) \<and>
   post_reads_ok Map.empty Map.empty Map.empty
     ((post 1)\<lparr>lang := No_attribute, source := Has ''web'', public_metrics := Is_None,
        attachments := No_attribute, referenced_tweets := No_attribute,
        entities := No_attribute\<rparr>)"
proof -
  have ok: "reads_ok (page [post 1, anonymous 2] None)"
    "reads_ok (page_with_author dave [post 1])"
    by (simp_all add: ok_defs example_defs)
  from normalize_succeeds_exactly_when_reads_succeed [of "page [post 1, anonymous 2] None"] ok(1)
  obtain recs where "process_tweets (page [post 1, anonymous 2] None) = Inr recs" by blast
  then have p1: "process_tweets (page [post 1, anonymous 2] None) = Inr [post_record 1, post_record 2]"
    by (simp add: model_defs example_defs)
  from normalize_succeeds_exactly_when_reads_succeed [of "page_with_author dave [post 1]"] ok(2)
  obtain recs where "process_tweets (page_with_author dave [post 1]) = Inr recs" by blast
  then have p2: "process_tweets (page_with_author dave [post 1]) = Inr [post_record 1]"
    by (simp add: model_defs example_defs)
  have m: "has_mandatory (post 1)" "hasattr (author_id (post 1))"
    "author_id (anonymous 2) = Is_None" "\<not> author_reads_ok dave"
    by (simp_all add: ok_defs example_defs)
  from normalize_succeeds_exactly_when_reads_succeed [where t = "post 1" and l = No_attribute
      and s = "Has ''web''" and pm = Is_None] m(1,2)
  have "post_reads_ok Map.empty Map.empty Map.empty
     ((post 1)\<lparr>lang := No_attribute, source := Has ''web'', public_metrics := Is_None,
        attachments := No_attribute, referenced_tweets := No_attribute,
        entities := No_attribute\<rparr>)"
    by blast
  with ok p1 p2 m show ?thesis by simp
qed

text \<open>
  The counterexample to C9 as stated: the post carries id, text and timestamp, and its
  author is in the side table with \<^verbatim>\<open>public_metrics\<close> being \<^verbatim>\<open>None\<close>; the subscript
  raises \<^verbatim>\<open>TypeError\<close>.
\<close>

theorem normalize_fails_on_author_without_metrics:
  "data (page_with_author bob [post 1]) = Some [post 1] \<and>
   list_all has_mandatory [post 1] \<and>
   a_public_metrics bob = Is_None \<and>
   process_tweets (page_with_author bob [post 1]) = Inl TypeError"
  by (simp add: model_defs example_defs has_mandatory_def holds_value_def)

text \<open>
  Claim C3, as the code has it. On every page where the unguarded reads succeed
  (\<open>reads_ok\<close>, which are exactly the pages on which normalisation returns)
  normalisation returns exactly one record per raw post, in the order of the page: the
  record at position \<open>i\<close> carries the id, the text and the timestamp of the raw post at
  position \<open>i\<close>. On every other page it raises, and no record is produced for any post of
  the page.
\<close>

theorem normalize_one_record_per_post:
  "(reads_ok r \<and> data r = Some ts \<longrightarrow>
      (\<exists>recs. process_tweets r = Inr recs \<and> length recs = length ts \<and>
         (\<forall>i<length ts.
            field ''id'' (recs ! i) = Some (opt_json JInt (val (tweet_id (ts ! i)))) \<and>
            field ''text'' (recs ! i) = Some (opt_json JStr (val (tweet_text (ts ! i)))) \<and>
            field ''created_at'' (recs ! i) =
              map_option (\<lambda>d. JStr (isoformat d)) (val (created_at (ts ! i)))))) \<and>
   (\<not> reads_ok r \<longrightarrow> (\<exists>e. process_tweets r = Inl e))"
proof -
  have one: "\<exists>recs. process_tweets r = Inr recs \<and> length recs = length ts \<and>
         (\<forall>i<length ts.
            field ''id'' (recs ! i) = Some (opt_json JInt (val (tweet_id (ts ! i)))) \<and>
            field ''text'' (recs ! i) = Some (opt_json JStr (val (tweet_text (ts ! i)))) \<and>
            field ''created_at'' (recs ! i) =
              map_option (\<lambda>d. JStr (isoformat d)) (val (created_at (ts ! i))))"
    if h: "reads_ok r \<and> data r = Some ts"
  proof -
    from h succeeds_process_tweets [of r] obtain recs where r: "process_tweets r = Inr recs"
      by (auto simp: succeeds_iff)
    from h process_tweets_nth [OF r] obtain ud md tw where
      len: "length recs = length ts" and
      p: "\<forall>i<length ts. process_tweet ud md tw (ts ! i) = Inr (recs ! i)"
      by blast
    show ?thesis using r len p process_tweet_fields by blast
  qed
  have none: "\<exists>e. process_tweets r = Inl e" if "\<not> reads_ok r"
    using that succeeds_process_tweets [of r]
    by (cases "process_tweets r") (simp_all add: succeeds_simps)
  from one none show ?thesis by blast
qed

text \<open>
  The witness for C3: the two posts of \<open>rich_page\<close>, and a page of two posts that raises.
\<close>

theorem normalize_one_record_per_post_witness:
  "reads_ok rich_page \<and> data rich_page = Some [rich_post, post 2] \<and>
   process_tweets rich_page = Inr rich_records \<and> length rich_records = 2 \<and>
   field ''id'' (rich_records ! 0) = Some (JInt 9) \<and>
   field ''id'' (rich_records ! 1) = Some (JInt 2) \<and>
   \<not> reads_ok (page_with_author bob [post 1, post 2]) \<and>
   process_tweets (page_with_author bob [post 1, post 2]) = Inl TypeError"
proof -
  have d: "data rich_page = Some [rich_post, post 2]"
    by (simp add: rich_page_def)
  from normalize_one_record_per_post [of rich_page "[rich_post, post 2]"] rich_page_ok d
  obtain recs where
    "process_tweets rich_page = Inr recs" "length recs = length [rich_post, post 2]"
    "\<forall>i<length [rich_post, post 2].
       field ''id'' (recs ! i) = Some (opt_json JInt (val (tweet_id ([rich_post, post 2] ! i))))"
    by blast
  then have "length rich_records = 2"
    "field ''id'' (rich_records ! 0) = Some (JInt 9)"
    "field ''id'' (rich_records ! 1) = Some (JInt 2)"
    using rich_page_records by (auto simp: example_defs val_def opt_json_def)
  moreover have n: "\<not> reads_ok (page_with_author bob [post 1, post 2])"
    by (simp add: ok_defs example_defs)
  moreover from normalize_one_record_per_post [of "page_with_author bob [post 1, post 2]"] n
  obtain e where "process_tweets (page_with_author bob [post 1, post 2]) = Inl e" by blast
  then have "process_tweets (page_with_author bob [post 1, post 2]) = Inl TypeError"
    by (simp add: model_defs example_defs)
  ultimately show ?thesis using rich_page_ok d rich_page_records by simp
qed

text \<open>
  The counterexample to C3 as stated: two posts with id, text and timestamp, whose author
  has \<^verbatim>\<open>public_metrics\<close> without \<^verbatim>\<open>following_count\<close>; normalisation raises, and no
  record is produced for either post.
\<close>

theorem normalize_drops_page_on_missing_metric_count:
  "data (page_with_author carol [post 1, post 2]) = Some [post 1, post 2] \<and>
   list_all has_mandatory [post 1, post 2] \<and>
   process_tweets (page_with_author carol [post 1, post 2]) = Inl KeyError"
  by (simp add: model_defs example_defs has_mandatory_def holds_value_def)

section \<open>Properties of the pagination loop\<close>

lemma emit_emit: "emit a (emit b r) = emit (a @ b) r"
  by (simp add: emit_def split: option.splits)

lemma emit_Nil: "emit [] r = r"
  by (simp add: emit_def split: option.splits)

lemma iteration_rate_limit:
  "iteration uid m (Raise TooManyRequests) all_t tok =
     (Continue all_t tok, [Get_users_tweets uid tok, Log WARNING Rate_limit_hit, Sleep 900])"
  by (simp add: iteration_def try_body_def)

lemma loop_rate_limit:
  "get_user_tweets_loop (replicate n (Raise TooManyRequests) @ fs) uid m all_t tok =
     emit (concat (replicate n [Get_users_tweets uid tok, Log WARNING Rate_limit_hit, Sleep 900]))
       (get_user_tweets_loop fs uid m all_t tok)"
  by (induction n) (simp_all add: iteration_rate_limit emit_emit emit_Nil)

lemma requests_append: "requests (a @ b) = requests a + requests b"
  by (simp add: requests_def)

lemma emit_Some: "emit evs r = Some (x, tr) \<longleftrightarrow> (\<exists>tr'. r = Some (x, tr') \<and> tr = evs @ tr')"
  by (auto simp: emit_def split: option.splits)


lemma process_tweets_falsy: "falsy (data r) \<Longrightarrow> process_tweets r = Inr []"
  by (simp add: process_tweets_def)

lemma iteration_break:
  assumes "iteration uid m f all_t tok = (Break res, evs)" and "int (length all_t) \<le> m"
  shows "res = take (nat m) (all_t @ posts_of f) \<and> requests evs = 1"
proof (cases f)
  case (Raise e)
  with assms show ?thesis
    by (auto simp: iteration_def try_body_def requests_def split: if_splits)
next
  case (Page r)
  show ?thesis
  proof (cases "falsy (data r)")
    case True
    with assms Page show ?thesis
      by (auto simp: iteration_def try_body_def requests_def process_tweets_falsy)
  next
    case False
    show ?thesis
    proof (cases "process_tweets r")
      case (Inl e)
      with assms Page False show ?thesis
        by (auto simp: iteration_def try_body_def ebind_def requests_def split: if_splits)
    next
      case (Inr ps)
      with assms Page False show ?thesis
        by (auto simp: iteration_def try_body_def ebind_def requests_def slice_to_def Let_def
            split: if_splits option.splits)
    qed
  qed
qed

lemma iteration_continue:
  assumes "iteration uid m f all_t tok = (Continue a1 t1, evs)"
  shows "a1 = all_t @ posts_of f \<and> requests evs = 1 \<and>
         (int (length all_t) \<le> m \<longrightarrow> int (length a1) \<le> m)"
proof (cases f)
  case (Raise e)
  with assms show ?thesis
    by (auto simp: iteration_def try_body_def requests_def split: if_splits)
next
  case (Page r)
  show ?thesis
  proof (cases "falsy (data r)")
    case True
    with assms Page show ?thesis
      by (auto simp: iteration_def try_body_def requests_def)
  next
    case False
    show ?thesis
    proof (cases "process_tweets r")
      case (Inl e)
      with assms Page False show ?thesis
        by (auto simp: iteration_def try_body_def ebind_def requests_def split: if_splits)
    next
      case (Inr ps)
      with assms Page False show ?thesis
        by (auto simp: iteration_def try_body_def ebind_def requests_def Let_def
            split: if_splits option.splits)
    qed
  qed
qed

lemma loop_result:
  "get_user_tweets_loop fs uid m all_t tok = Some (res, tr) \<Longrightarrow> int (length all_t) \<le> m \<Longrightarrow>
     res = take (nat m) (all_t @ fetched_posts (take (requests tr) fs))"
proof (induction fs arbitrary: all_t tok res tr)
  case Nil
  then show ?case by simp
next
  case (Cons f fs)
  obtain s evs where it: "iteration uid m f all_t tok = (s, evs)" by (cases "iteration uid m f all_t tok")
  show ?case
  proof (cases s)
    case (Break r)
    with it Cons.prems have "res = r" "tr = evs" by simp_all
    with iteration_break [of uid m f all_t tok r evs] it Break Cons.prems(2)
    show ?thesis by (simp add: fetched_posts_def)
  next
    case (Continue a1 t1)
    with it Cons.prems obtain tr' where
      rec: "get_user_tweets_loop fs uid m a1 t1 = Some (res, tr')" and tr: "tr = evs @ tr'"
      by (auto simp: emit_Some)
    from iteration_continue [of uid m f all_t tok a1 t1 evs] it Continue Cons.prems(2)
    have a1: "a1 = all_t @ posts_of f" and rq: "requests evs = 1" and le: "int (length a1) \<le> m"
      by blast+
    from Cons.IH [OF rec le] a1 rq tr show ?thesis
      by (simp add: requests_append fetched_posts_def)
  qed
qed

lemma page_one_records:
  "process_tweets page_one =
     Inr [post_record 1, post_record 2, post_record 3, post_record 4, post_record 5]"
  by (simp add: model_defs example_defs page_one_def)

lemma page_two_records:
  "process_tweets page_two = Inr [post_record 6, post_record 7, post_record 8]"
  by (simp add: model_defs example_defs page_two_def)


lemma page_one_facts:
  "data page_one = Some [post 1, post 2, post 3, post 4, post 5]"
  "next_token (meta page_one) = Some ''T''" "\<not> falsy (data page_one)"
  "process_tweets page_one = Inr records_one"
  using page_one_records by (simp_all add: page_one_def page_def falsy_def records_one_def)

lemma page_two_facts:
  "data page_two = Some [post 6, post 7, post 8]"
  "next_token (meta page_two) = None" "\<not> falsy (data page_two)"
  "process_tweets page_two = Inr records_two"
  using page_two_records by (simp_all add: page_two_def page_def falsy_def records_two_def)

lemma iteration_good_page:
  assumes "\<not> falsy (data r)" and "process_tweets r = Inr ps"
    and "int (length (all_t @ ps)) < m" and "next_token (meta r) = Some t"
  shows "iteration uid m (Page r) all_t tok =
           (Continue (all_t @ ps) (Some t), [Get_users_tweets uid tok, Sleep 1])"
  using assms by (simp add: iteration_def try_body_def ebind_def)

lemma iteration_cap_page:
  assumes "\<not> falsy (data r)" and "process_tweets r = Inr ps"
    and "m \<le> int (length (all_t @ ps))"
  shows "iteration uid m (Page r) all_t tok =
           (Break (slice_to (all_t @ ps) m), [Get_users_tweets uid tok])"
  using assms by (simp add: iteration_def try_body_def ebind_def)

lemma loop_through:
  assumes "list_all keeps_going pre" and "int (length (all_t @ fetched_posts pre)) < m"
  shows "get_user_tweets_loop (pre @ fs) uid m all_t tok =
           emit (passes_events uid tok pre)
             (get_user_tweets_loop fs uid m (all_t @ fetched_posts pre) (token_after tok pre))"
  using assms
proof (induction pre arbitrary: all_t tok)
  case Nil
  then show ?case by (simp add: fetched_posts_def emit_Nil)
next
  case (Cons f pre)
  show ?case
  proof (cases f)
    case (Raise e)
    with Cons.prems have e: "e = TooManyRequests" by simp
    from Cons.prems Raise have "int (length (all_t @ fetched_posts pre)) < m"
      by (simp add: fetched_posts_def)
    from Cons.IH [OF _ this, of tok] Cons.prems(1) Raise e show ?thesis
      by (simp add: iteration_rate_limit emit_emit fetched_posts_def)
  next
    case (Page r)
    with Cons.prems(1) obtain ps t where
      r: "\<not> falsy (data r)" "process_tweets r = Inr ps" "next_token (meta r) = Some t"
      by (auto simp: succeeds_iff)
    from Cons.prems(2) Page r have lt: "int (length ((all_t @ ps) @ fetched_posts pre)) < m"
      by (simp add: fetched_posts_def)
    then have lt1: "int (length (all_t @ ps)) < m" by simp
    from Cons.IH [OF _ lt, of "Some t"] Cons.prems(1)
      iteration_good_page [OF r(1,2) lt1 r(3), of uid tok] Page r
    show ?thesis by (simp add: emit_emit fetched_posts_def)
  qed
qed

lemma loop_after_retries:
  "get_user_tweets_loop (replicate n (Raise TooManyRequests) @ f # fs) uid m all_t tok =
     (case iteration uid m f all_t tok of
        (Break res, evs) \<Rightarrow>
          Some (res, concat (replicate n
                  [Get_users_tweets uid tok, Log WARNING Rate_limit_hit, Sleep (15 * 60)]) @ evs)
      | (Continue a1 t1, evs) \<Rightarrow>
          emit (concat (replicate n
                  [Get_users_tweets uid tok, Log WARNING Rate_limit_hit, Sleep (15 * 60)]) @ evs)
            (get_user_tweets_loop fs uid m a1 t1))"
proof -
  obtain s evs where it: "iteration uid m f all_t tok = (s, evs)"
    by (cases "iteration uid m f all_t tok")
  have sl: "Sleep (15 * 60) = Sleep 900" by simp
  show ?thesis
    unfolding loop_rate_limit sl
    by (cases s) (simp_all add: it emit_emit, simp add: emit_def)
qed

text \<open>
  Claim C6. A rate-limit signal (\<^verbatim>\<open>tweepy.TooManyRequests\<close>) raised by a page request
  leaves the collected posts and the continuation token as they were, logs a warning and
  sleeps 900 seconds; the pass that follows, like every pass, starts with the request for
  the token the loop holds, so the same page is asked for again. After any number \<open>n\<close> of
  signals in a row the loop has made \<open>n\<close> such requests, each followed by the same sleep,
  and then makes, on the next answer \<open>f\<close>, the very pass it would have made on \<open>f\<close> before
  the first signal: with the same posts and the same token, returning what that pass
  returns when it ends the loop and going on as that pass goes on otherwise. A client
  that only ever signals the rate limit never lets the loop return, however many answers
  are taken.
\<close>

theorem rate_limit_retries_same_page:
  "iteration uid m (Raise TooManyRequests) all_t tok =
     (Continue all_t tok,
      [Get_users_tweets uid tok, Log WARNING Rate_limit_hit, Sleep (15 * 60)])
   \<and> hd (snd (iteration uid m f all_t tok)) = Get_users_tweets uid tok
   \<and> get_user_tweets_loop (replicate n (Raise TooManyRequests) @ f # fs) uid m all_t tok =
       (case iteration uid m f all_t tok of
          (Break res, evs) \<Rightarrow>
            Some (res, concat (replicate n
                    [Get_users_tweets uid tok, Log WARNING Rate_limit_hit, Sleep (15 * 60)]) @ evs)
        | (Continue a1 t1, evs) \<Rightarrow>
            emit (concat (replicate n
                    [Get_users_tweets uid tok, Log WARNING Rate_limit_hit, Sleep (15 * 60)]) @ evs)
              (get_user_tweets_loop fs uid m a1 t1))
   \<and> get_user_tweets_loop (replicate n (Raise TooManyRequests) @ fs) uid m all_t tok =
       emit (concat (replicate n
               [Get_users_tweets uid tok, Log WARNING Rate_limit_hit, Sleep (15 * 60)]))
         (get_user_tweets_loop fs uid m all_t tok)
   \<and> get_user_tweets_loop (replicate n (Raise TooManyRequests)) uid m all_t tok = None"
proof -
  have first: "hd (snd (iteration uid m f all_t tok)) = Get_users_tweets uid tok"
    by (simp add: iteration_def split: sum.splits prod.splits)
  have forever: "get_user_tweets_loop (replicate n (Raise TooManyRequests)) uid m all_t tok = None"
    using loop_rate_limit [of n "[]" uid m all_t tok] by (simp add: emit_def)
  show ?thesis
    using first forever loop_rate_limit [of n fs uid m all_t tok]
      loop_after_retries [of n f fs uid m all_t tok]
    by (simp add: iteration_rate_limit)
qed

text \<open>
  The witness for C6: after a first page with token \<^verbatim>\<open>T\<close> the client signals the rate
  limit twice and then delivers the second page; the loop asks three times for \<^verbatim>\<open>T\<close>
  and returns the eight posts.
\<close>

theorem rate_limit_retries_same_page_witness:
  "iteration 7 100 (Page page_two) records_one (Some ''T'') =
     (Break (records_one @ records_two), [Get_users_tweets 7 (Some ''T'')]) \<and>
   get_user_tweets_loop
     (replicate 2 (Raise TooManyRequests) @ Page page_two # [Page page_one])
     7 100 records_one (Some ''T'') =
     Some (records_one @ records_two,
       [Get_users_tweets 7 (Some ''T''), Log WARNING Rate_limit_hit, Sleep 900,
        Get_users_tweets 7 (Some ''T''), Log WARNING Rate_limit_hit, Sleep 900,
        Get_users_tweets 7 (Some ''T'')]) \<and>
   get_user_tweets
     [Page page_one, Raise TooManyRequests, Raise TooManyRequests, Page page_two, Page page_one]
     7 100 =
     Some (records_one @ records_two,
       [Get_users_tweets 7 None, Sleep 1,
        Get_users_tweets 7 (Some ''T''), Log WARNING Rate_limit_hit, Sleep 900,
        Get_users_tweets 7 (Some ''T''), Log WARNING Rate_limit_hit, Sleep 900,
        Get_users_tweets 7 (Some ''T'')])"
proof -
  have it: "iteration 7 100 (Page page_two) records_one (Some ''T'') =
     (Break (records_one @ records_two), [Get_users_tweets 7 (Some ''T'')])"
    using page_two_facts
    by (simp add: iteration_def try_body_def ebind_def records_one_def records_two_def)
  have retry: "get_user_tweets_loop
     (replicate 2 (Raise TooManyRequests) @ Page page_two # [Page page_one])
     7 100 records_one (Some ''T'') =
     Some (records_one @ records_two,
       [Get_users_tweets 7 (Some ''T''), Log WARNING Rate_limit_hit, Sleep 900,
        Get_users_tweets 7 (Some ''T''), Log WARNING Rate_limit_hit, Sleep 900,
        Get_users_tweets 7 (Some ''T'')])"
    using rate_limit_retries_same_page [of 7 100 records_one "Some ''T''" "Page page_two" 2
        "[Page page_one]"]
    by (simp only: it prod.case step.case) (simp add: numeral_2_eq_2)
  have first: "iteration 7 100 (Page page_one) [] None =
     (Continue records_one (Some ''T''), [Get_users_tweets 7 None, Sleep 1])"
    using page_one_facts
    by (simp add: iteration_def try_body_def ebind_def records_one_def)
  have "get_user_tweets
     [Page page_one, Raise TooManyRequests, Raise TooManyRequests, Page page_two, Page page_one]
     7 100 =
     emit [Get_users_tweets 7 None, Sleep 1]
       (get_user_tweets_loop
          (replicate 2 (Raise TooManyRequests) @ Page page_two # [Page page_one])
          7 100 records_one (Some ''T''))"
    by (simp add: get_user_tweets_def first numeral_2_eq_2 del: get_user_tweets_loop.simps
        add: get_user_tweets_loop.simps(2) [of "Page page_one"])
  with retry it show ?thesis by (simp add: emit_def)
qed

text \<open>
  Claim C1. For every cap \<open>N\<close> (a count, so \<open>0 \<le> N\<close>), every account id and every
  behaviour of the client: when \<^verbatim>\<open>get_user_tweets\<close> returns, it returns at most \<open>N\<close>
  records, and they are the first \<open>N\<close> of the records of the pages it fetched, in fetch
  order (all of them when there are fewer). It does return them as soon as \<open>N\<close> posts are
  there: when the answers \<open>pre\<close> keep the loop going with fewer than \<open>N\<close> posts and the
  page that follows brings the count to \<open>N\<close> or more, the loop returns the first \<open>N\<close> of
  these posts at that page, whatever the client would have answered next. In particular,
  with cap 4 and a first page of five posts it returns the first four records of that page
  after a single request.
\<close>

theorem cap_truncates_in_fetch_order:
  assumes "0 \<le> N"
  shows "(get_user_tweets fs uid N = Some (res, tr) \<longrightarrow>
            int (length res) \<le> N \<and>
            res = take (nat N) (fetched_posts (take (requests tr) fs))) \<and>
         (list_all keeps_going pre \<and> int (length (fetched_posts pre)) < N \<and>
          \<not> falsy (data r) \<and> process_tweets r = Inr ps \<and>
          N \<le> int (length (fetched_posts pre @ ps)) \<longrightarrow>
            get_user_tweets (pre @ Page r # rest) uid N =
              Some (take (nat N) (fetched_posts pre @ ps),
                    passes_events uid None pre @ [Get_users_tweets uid (token_after None pre)])) \<and>
         (data p = Some ts \<and> length ts = 5 \<and> process_tweets p = Inr recs \<longrightarrow>
            length recs = 5 \<and>
            get_user_tweets (Page p # rest) uid 4 = Some (take 4 recs, [Get_users_tweets uid None]))"
proof -
  have general: "int (length res) \<le> N \<and> res = take (nat N) (fetched_posts (take (requests tr) fs))"
    if "get_user_tweets fs uid N = Some (res, tr)"
  proof -
    from that assms loop_result [of fs uid N "[]" None res tr]
    have "res = take (nat N) (fetched_posts (take (requests tr) fs))"
      by (simp add: get_user_tweets_def)
    moreover from this assms have "int (length res) \<le> N"
      by (metis length_take min.cobounded2 nat_le_iff of_nat_le_iff nat_0_le)
    ultimately show ?thesis by simp
  qed
  have later: "get_user_tweets (pre @ Page r # rest) uid N =
              Some (take (nat N) (fetched_posts pre @ ps),
                    passes_events uid None pre @ [Get_users_tweets uid (token_after None pre)])"
    if h: "list_all keeps_going pre \<and> int (length (fetched_posts pre)) < N \<and>
          \<not> falsy (data r) \<and> process_tweets r = Inr ps \<and>
          N \<le> int (length (fetched_posts pre @ ps))"
  proof -
    from h have k: "list_all keeps_going pre" and lt: "int (length ([] @ fetched_posts pre)) < N"
      and nf: "\<not> falsy (data r)" and pr: "process_tweets r = Inr ps"
      and cap: "N \<le> int (length (([] @ fetched_posts pre) @ ps))"
      by simp_all
    have "get_user_tweets (pre @ Page r # rest) uid N =
        emit (passes_events uid None pre)
          (get_user_tweets_loop (Page r # rest) uid N ([] @ fetched_posts pre) (token_after None pre))"
      unfolding get_user_tweets_def by (rule loop_through [OF k lt])
    also have "\<dots> = Some (slice_to (fetched_posts pre @ ps) N,
        passes_events uid None pre @ [Get_users_tweets uid (token_after None pre)])"
      using iteration_cap_page [OF nf pr cap, of uid "token_after None pre"]
      by (simp add: emit_def)
    finally show ?thesis using assms by (simp add: slice_to_def)
  qed
  have particular: "length recs = 5 \<and>
      get_user_tweets (Page p # rest) uid 4 = Some (take 4 recs, [Get_users_tweets uid None])"
    if "data p = Some ts \<and> length ts = 5 \<and> process_tweets p = Inr recs"
  proof -
    from that process_tweets_nth [of p recs ts] have len: "length recs = 5" by simp
    from that have nf: "\<not> falsy (data p)" by (auto simp: falsy_def)
    from that len nf show ?thesis
      by (simp add: get_user_tweets_def iteration_def try_body_def ebind_def slice_to_def)
  qed
  from general later particular show ?thesis by blast
qed

text \<open>
  The witness for C1: cap 7, a first page of five posts, a rate-limit signal, and a second
  page of three posts, of which the first two are returned; a further page is never asked
  for.
\<close>

theorem cap_truncates_in_fetch_order_witness:
  "(0::int) \<le> 7 \<and>
   list_all keeps_going [Page page_one, Raise TooManyRequests] \<and>
   int (length (fetched_posts [Page page_one, Raise TooManyRequests])) < 7 \<and>
   \<not> falsy (data page_two) \<and> process_tweets page_two = Inr records_two \<and>
   (7::int) \<le> int (length (fetched_posts [Page page_one, Raise TooManyRequests] @ records_two)) \<and>
   get_user_tweets ([Page page_one, Raise TooManyRequests] @ Page page_two # [Page page_one]) 7 7 =
     Some ([post_record 1, post_record 2, post_record 3, post_record 4, post_record 5,
            post_record 6, post_record 7],
           [Get_users_tweets 7 None, Sleep 1,
            Get_users_tweets 7 (Some ''T''), Log WARNING Rate_limit_hit, Sleep 900,
            Get_users_tweets 7 (Some ''T'')]) \<and>
   length [post_record 1, post_record 2, post_record 3, post_record 4, post_record 5,
           post_record 6, post_record 7] = 7"
proof -
  have f: "fetched_posts [Page page_one, Raise TooManyRequests] = records_one"
    by (simp add: fetched_posts_def page_one_facts)
  have k: "list_all keeps_going [Page page_one, Raise TooManyRequests]"
    by (simp add: page_one_facts succeeds_simps falsy_def)
  have lt: "int (length (fetched_posts [Page page_one, Raise TooManyRequests])) < 7"
    by (simp add: f records_one_def)
  have cap: "(7::int) \<le> int (length (fetched_posts [Page page_one, Raise TooManyRequests] @ records_two))"
    by (simp add: f records_one_def records_two_def)
  have "get_user_tweets ([Page page_one, Raise TooManyRequests] @ Page page_two # [Page page_one]) 7 7 =
     Some (take (nat 7) (fetched_posts [Page page_one, Raise TooManyRequests] @ records_two),
           passes_events 7 None [Page page_one, Raise TooManyRequests] @
             [Get_users_tweets 7 (token_after None [Page page_one, Raise TooManyRequests])])"
    using cap_truncates_in_fetch_order [where N = 7 and pre = "[Page page_one, Raise TooManyRequests]"
        and r = page_two and ps = records_two and rest = "[Page page_one]" and uid = 7]
      k lt cap page_two_facts
    by simp
  then have "get_user_tweets ([Page page_one, Raise TooManyRequests] @ Page page_two # [Page page_one]) 7 7 =
     Some ([post_record 1, post_record 2, post_record 3, post_record 4, post_record 5,
            post_record 6, post_record 7],
           [Get_users_tweets 7 None, Sleep 1,
            Get_users_tweets 7 (Some ''T''), Log WARNING Rate_limit_hit, Sleep 900,
            Get_users_tweets 7 (Some ''T'')])"
    by (simp add: f records_one_def records_two_def page_one_facts)
  with k lt cap page_two_facts show ?thesis by simp
qed

text \<open>
  Claim C7, as the code has it. A pass of the loop leaves it exactly when (a) the page has
  no posts, (b) the posts collected so far, with those of the page, reach the cap, (c) the
  page carries no continuation token, or (d) the request or the normalisation of the page
  raises an error other than the rate-limit signal. In particular, for a first page of
  five posts with a token and a second page of three posts without one, and cap 100, the
  loop returns the eight records in order after two requests, whatever the client would
  have answered to a third.
\<close>

theorem loop_ends_exactly_on_break_or_error:
  "(breaks (fst (iteration uid m f all_t tok)) \<longleftrightarrow>
      (\<exists>r. f = Page r \<and> falsy (data r)) \<or>
      (\<exists>r ps. f = Page r \<and> process_tweets r = Inr ps \<and> m \<le> int (length (all_t @ ps))) \<or>
      (\<exists>r ps. f = Page r \<and> process_tweets r = Inr ps \<and> next_token (meta r) = None) \<or>
      (\<exists>e. try_body m f all_t = Inl e \<and> e \<noteq> TooManyRequests)) \<and>
   (data p1 = Some ts1 \<and> length ts1 = 5 \<and> next_token (meta p1) = Some t \<and>
    process_tweets p1 = Inr ps1 \<and>
    data p2 = Some ts2 \<and> length ts2 = 3 \<and> next_token (meta p2) = None \<and>
    process_tweets p2 = Inr ps2 \<longrightarrow>
      length (ps1 @ ps2) = 8 \<and>
      get_user_tweets (Page p1 # Page p2 # rest) uid 100 =
        Some (ps1 @ ps2, [Get_users_tweets uid None, Sleep 1, Get_users_tweets uid (Some t)]))"
proof -
  have iff: "breaks (fst (iteration uid m f all_t tok)) \<longleftrightarrow>
      (\<exists>r. f = Page r \<and> falsy (data r)) \<or>
      (\<exists>r ps. f = Page r \<and> process_tweets r = Inr ps \<and> m \<le> int (length (all_t @ ps))) \<or>
      (\<exists>r ps. f = Page r \<and> process_tweets r = Inr ps \<and> next_token (meta r) = None) \<or>
      (\<exists>e. try_body m f all_t = Inl e \<and> e \<noteq> TooManyRequests)"
  proof (cases f)
    case (Raise e)
    then show ?thesis by (simp add: iteration_def try_body_def)
  next
    case (Page r)
    show ?thesis
    proof (cases "falsy (data r)")
      case True
      with Page show ?thesis by (simp add: iteration_def try_body_def)
    next
      case False
      show ?thesis
      proof (cases "process_tweets r")
        case (Inl e)
        with Page False show ?thesis by (simp add: iteration_def try_body_def ebind_def)
      next
        case (Inr ps)
        with Page False show ?thesis
          by (simp add: iteration_def try_body_def ebind_def Let_def split: option.splits)
      qed
    qed
  qed
  have ex: "length (ps1 @ ps2) = 8 \<and>
      get_user_tweets (Page p1 # Page p2 # rest) uid 100 =
        Some (ps1 @ ps2, [Get_users_tweets uid None, Sleep 1, Get_users_tweets uid (Some t)])"
    if h: "data p1 = Some ts1 \<and> length ts1 = 5 \<and> next_token (meta p1) = Some t \<and>
      process_tweets p1 = Inr ps1 \<and>
      data p2 = Some ts2 \<and> length ts2 = 3 \<and> next_token (meta p2) = None \<and>
      process_tweets p2 = Inr ps2"
  proof -
    from h process_tweets_nth [of p1 ps1 ts1] have l1: "length ps1 = 5" by simp
    from h process_tweets_nth [of p2 ps2 ts2] have l2: "length ps2 = 3" by simp
    from h have nf: "\<not> falsy (data p1)" "\<not> falsy (data p2)" by (auto simp: falsy_def)
    from h l1 l2 nf show ?thesis
      by (simp add: get_user_tweets_def iteration_def try_body_def ebind_def emit_def)
  qed
  from iff ex show ?thesis by blast
qed

text \<open>The witness for C7: \<open>page_one\<close>, \<open>page_two\<close>, and a third answer that is never asked for.\<close>

theorem loop_ends_witness:
  "data page_one = Some [post 1, post 2, post 3, post 4, post 5] \<and>
   length [post 1, post 2, post 3, post 4, post 5] = 5 \<and>
   next_token (meta page_one) = Some ''T'' \<and>
   process_tweets page_one =
     Inr [post_record 1, post_record 2, post_record 3, post_record 4, post_record 5] \<and>
   data page_two = Some [post 6, post 7, post 8] \<and>
   length [post 6, post 7, post 8] = 3 \<and>
   next_token (meta page_two) = None \<and>
   process_tweets page_two = Inr [post_record 6, post_record 7, post_record 8] \<and>
   get_user_tweets [Page page_one, Page page_two, Page page_one] 7 100 =
     Some ([post_record 1, post_record 2, post_record 3, post_record 4, post_record 5,
            post_record 6, post_record 7, post_record 8],
           [Get_users_tweets 7 None, Sleep 1, Get_users_tweets 7 (Some ''T'')])"
proof -
  have d: "data page_one = Some [post 1, post 2, post 3, post 4, post 5]"
      "next_token (meta page_one) = Some ''T''"
      "data page_two = Some [post 6, post 7, post 8]"
      "next_token (meta page_two) = None"
    by (simp_all add: page_one_def page_two_def page_def)
  show ?thesis
    using loop_ends_exactly_on_break_or_error [of 7 100 "Page page_one" "[]" None page_one
        "[post 1, post 2, post 3, post 4, post 5]" "''T''"
        "[post_record 1, post_record 2, post_record 3, post_record 4, post_record 5]"
        page_two "[post 6, post 7, post 8]"
        "[post_record 6, post_record 7, post_record 8]" "[Page page_one]"]
      d page_one_records page_two_records
    by simp
qed

text \<open>
  The counterexample to C7 as stated: the loop ends at its second request, which raises
  an error; the only page fetched has posts, a continuation token, and fewer posts than
  the cap.
\<close>

theorem loop_ends_on_error_counterexample:
  "get_user_tweets [Page page_one, Raise APIError, Page page_two] 7 100 =
     Some ([post_record 1, post_record 2, post_record 3, post_record 4, post_record 5],
           [Get_users_tweets 7 None, Sleep 1, Get_users_tweets 7 (Some ''T''),
            Log ERROR (Error_fetching_tweets APIError)]) \<and>
   \<not> falsy (data page_one) \<and>
   \<not> 100 \<le> int (length [post_record 1, post_record 2, post_record 3, post_record 4, post_record 5]) \<and>
   next_token (meta page_one) = Some ''T''"
proof -
  have "\<not> falsy (data page_one)" "next_token (meta page_one) = Some ''T''"
    by (simp_all add: page_one_def page_def falsy_def)
  then show ?thesis using page_one_records
    by (simp add: get_user_tweets_def iteration_def try_body_def ebind_def emit_def)
qed




section \<open>Properties of the orchestrator\<close>


lemma set_dict_set: "set (dict_set k v d) \<subseteq> insert (k, v) (set d)"
  by (induction d) (auto split: if_splits)


lemma no_save_iteration: "\<not> is_save ev" if "ev \<in> set (snd (iteration uid m f all_t tok))"
  using that
  by (cases f) (auto simp: iteration_def try_body_def ebind_def Let_def
      split: if_splits sum.splits option.splits)

lemma no_save_loop:
  "get_user_tweets_loop fs uid m all_t tok = Some (res, tr) \<Longrightarrow> ev \<in> set tr \<Longrightarrow> \<not> is_save ev"
proof (induction fs arbitrary: all_t tok res tr)
  case Nil
  then show ?case by simp
next
  case (Cons f fs)
  obtain s evs where it: "iteration uid m f all_t tok = (s, evs)"
    by (cases "iteration uid m f all_t tok")
  have evs: "\<And>x. x \<in> set evs \<Longrightarrow> \<not> is_save x"
    using no_save_iteration [of _ uid m f all_t tok] it by simp
  show ?case
  proof (cases s)
    case (Break r)
    with it Cons.prems evs show ?thesis by auto
  next
    case (Continue a1 t1)
    with it Cons.prems obtain tr' where
      "get_user_tweets_loop fs uid m a1 t1 = Some (res, tr')" "tr = evs @ tr'"
      by (auto simp: emit_Some)
    with Cons.IH [of a1 t1 res tr'] Cons.prems(2) evs show ?thesis by auto
  qed
qed

lemma no_save_get_user_id: "ev \<in> set (snd (get_user_id f u)) \<Longrightarrow> \<not> is_save ev"
  by (cases f) (auto simp: get_user_id_def get_user_id_try_def ebind_def attr_def
      split: option.splits sum.splits)

lemma follow_step_skip:
  assumes "fst (get_user_id (user_reply acct) u) = None \<or> fst (get_user_id (user_reply acct) u) = Some 0"
  shows "follow_users_loop ((u, acct) # rest) n d =
     emit (Log INFO (Processing_tweets_for_user u) # snd (get_user_id (user_reply acct) u) @
             [Log WARNING (Could_not_find_user_ID u)])
       (follow_users_loop rest n d)"
  using assms by (cases "get_user_id (user_reply acct) u") auto


lemma follow_step_empty:
  assumes "get_user_id (user_reply acct) u = (Some uid, ev1)" and "uid \<noteq> 0"
    and "get_user_tweets (tweets_replies acct) uid n = Some ([], ev2)"
  shows "follow_users_loop ((u, acct) # rest) n d =
     emit (Log INFO (Processing_tweets_for_user u) # ev1 @ ev2 @
             [Log INFO (Retrieved_tweets 0 u)])
       (follow_users_loop rest n d)"
  using assms by simp

lemma follow_step_posts:
  assumes "get_user_id (user_reply acct) u = (Some uid, ev1)" and "uid \<noteq> 0"
    and "get_user_tweets (tweets_replies acct) uid n = Some (ps, ev2)" and "ps \<noteq> []"
  shows "follow_users_loop ((u, acct) # rest) n d =
     (case save_reply acct of
        None \<Rightarrow>
          emit (Log INFO (Processing_tweets_for_user u) # ev1 @ ev2 @
                  [Log INFO (Retrieved_tweets (length ps) u),
                   Save_user_data u ps,
                   Log INFO (Saved_tweets (length ps) u)])
            (follow_users_loop rest n (dict_set u ps d))
      | Some x \<Rightarrow>
          Some (Inl x, Log INFO (Processing_tweets_for_user u) # ev1 @ ev2 @
                         [Log INFO (Retrieved_tweets (length ps) u)]))"
  using assms by simp

lemma follow_users_loop_cases:
  assumes "follow_users_loop ((u, acct) # rest) n d = Some (Inr d', tr)"
  obtains (skip) evs tr' where "fetch_yield u acct n = None"
      "follow_users_loop rest n d = Some (Inr d', tr')" "tr = evs @ tr'" "\<forall>ev\<in>set evs. \<not> is_save ev"
  | (empty) evs tr' where "fetch_yield u acct n = Some []"
      "follow_users_loop rest n d = Some (Inr d', tr')" "tr = evs @ tr'" "\<forall>ev\<in>set evs. \<not> is_save ev"
  | (posts) ps evs evs' tr' where "fetch_yield u acct n = Some ps" "ps \<noteq> []"
      "save_reply acct = None"
      "follow_users_loop rest n (dict_set u ps d) = Some (Inr d', tr')"
      "tr = evs @ Save_user_data u ps # evs' @ tr'"
      "\<forall>ev\<in>set evs. \<not> is_save ev" "\<forall>ev\<in>set evs'. \<not> is_save ev"
proof -
  obtain uid ev1 where g: "get_user_id (user_reply acct) u = (uid, ev1)"
    by (cases "get_user_id (user_reply acct) u")
  have ns1: "\<forall>ev\<in>set ev1. \<not> is_save ev"
    using no_save_get_user_id [of _ "user_reply acct" u] g by simp
  let ?p = "Log INFO (Processing_tweets_for_user u)"
  show thesis
  proof (cases "uid = None \<or> uid = Some 0")
    case True
    with g assms obtain tr' where
      r: "follow_users_loop rest n d = Some (Inr d', tr')" and
      t: "tr = (?p # ev1 @ [Log WARNING (Could_not_find_user_ID u)]) @ tr'"
      by (auto simp: emit_Some)
    from True g have y: "fetch_yield u acct n = None" by (auto simp: fetch_yield_def)
    have ns: "\<forall>ev\<in>set (?p # ev1 @ [Log WARNING (Could_not_find_user_ID u)]). \<not> is_save ev"
      using ns1 by auto
    show ?thesis by (rule skip [OF y r t ns])
  next
    case False
    then obtain i where uid: "uid = Some i" "i \<noteq> 0" by auto
    with g assms obtain ps ev2 where
      t: "get_user_tweets (tweets_replies acct) i n = Some (ps, ev2)"
      by (auto split: option.splits)
    have ns2: "\<forall>ev\<in>set ev2. \<not> is_save ev"
      using no_save_loop t by (auto simp: get_user_tweets_def)
    from g uid t have y: "fetch_yield u acct n = Some ps" by (simp add: fetch_yield_def)
    note g' = g [unfolded uid(1)]
    show ?thesis
    proof (cases "ps = []")
      case True
      with t have t0: "get_user_tweets (tweets_replies acct) i n = Some ([], ev2)" by simp
      from follow_step_empty [OF g' uid(2) t0, of rest d] assms
      have "emit (?p # ev1 @ ev2 @ [Log INFO (Retrieved_tweets 0 u)])
          (follow_users_loop rest n d) = Some (Inr d', tr)"
        by (simp only:)
      then obtain tr' where
        r: "follow_users_loop rest n d = Some (Inr d', tr')" and
        e: "tr = (?p # ev1 @ ev2 @ [Log INFO (Retrieved_tweets 0 u)]) @ tr'"
        unfolding emit_Some by blast
      have ns: "\<forall>ev\<in>set (?p # ev1 @ ev2 @ [Log INFO (Retrieved_tweets 0 u)]). \<not> is_save ev"
        using ns1 ns2 by auto
      from y True have y0: "fetch_yield u acct n = Some []" by simp
      show ?thesis by (rule empty [OF y0 r e ns])
    next
      case False
      from follow_step_posts [OF g' uid(2) t False, of rest d] assms
      have c: "(case save_reply acct of
           None \<Rightarrow>
             emit (?p # ev1 @ ev2 @
                     [Log INFO (Retrieved_tweets (length ps) u),
                      Save_user_data u ps,
                      Log INFO (Saved_tweets (length ps) u)])
               (follow_users_loop rest n (dict_set u ps d))
         | Some x \<Rightarrow>
             Some (Inl x, ?p # ev1 @ ev2 @
                            [Log INFO (Retrieved_tweets (length ps) u)])) = Some (Inr d', tr)"
        by (simp only:)
      then have sv: "save_reply acct = None" by (cases "save_reply acct") simp_all
      with c have "emit (?p # ev1 @ ev2 @
                     [Log INFO (Retrieved_tweets (length ps) u),
                      Save_user_data u ps,
                      Log INFO (Saved_tweets (length ps) u)])
               (follow_users_loop rest n (dict_set u ps d)) = Some (Inr d', tr)"
        by (simp only: option.case)
      then obtain tr' where
        r: "follow_users_loop rest n (dict_set u ps d) = Some (Inr d', tr')" and
        e0: "tr = (?p # ev1 @ ev2 @
                     [Log INFO (Retrieved_tweets (length ps) u),
                      Save_user_data u ps,
                      Log INFO (Saved_tweets (length ps) u)]) @ tr'"
        unfolding emit_Some by blast
      from e0 have e: "tr = (?p # ev1 @ ev2 @ [Log INFO (Retrieved_tweets (length ps) u)]) @
              Save_user_data u ps # [Log INFO (Saved_tweets (length ps) u)] @ tr'"
        by simp
      have ns: "\<forall>ev\<in>set (?p # ev1 @ ev2 @ [Log INFO (Retrieved_tweets (length ps) u)]). \<not> is_save ev"
        "\<forall>ev\<in>set [Log INFO (Saved_tweets (length ps) u)]. \<not> is_save ev"
        using ns1 ns2 by auto
      show ?thesis by (rule posts [OF y False sv r e ns])
    qed
  qed
qed


lemma follow_users_loop_values:
  "follow_users_loop accts n d = Some (Inr d', tr) \<Longrightarrow> (u, ps) \<in> set d' \<Longrightarrow>
     (u, ps) \<in> set d \<or> (\<exists>acct. (u, acct) \<in> set accts \<and> fetch_yield u acct n = Some ps \<and> ps \<noteq> [])"
proof (induction accts arbitrary: d tr)
  case Nil
  then show ?case by simp
next
  case (Cons a accts)
  obtain v acct where a: "a = (v, acct)" by (cases a)
  from Cons.prems(1) [unfolded a] show ?case
  proof (cases rule: follow_users_loop_cases)
    case (skip evs tr')
    with Cons.IH [OF _ Cons.prems(2)] show ?thesis by auto
  next
    case (empty evs tr')
    with Cons.IH [OF _ Cons.prems(2)] show ?thesis by auto
  next
    case (posts qs evs evs' tr')
    from Cons.IH [OF posts(4) Cons.prems(2)]
    consider "(u, ps) \<in> set (dict_set v qs d)"
      | "\<exists>acct. (u, acct) \<in> set accts \<and> fetch_yield u acct n = Some ps \<and> ps \<noteq> []"
      by blast
    then show ?thesis
    proof cases
      case 1
      with set_dict_set [of v qs d] have "(u, ps) = (v, qs) \<or> (u, ps) \<in> set d" by auto
      with posts(1,2) a show ?thesis by auto
    next
      case 2
      then show ?thesis by auto
    qed
  qed
qed

lemma follow_users_loop_saves:
  "follow_users_loop accts n d = Some (res, tr) \<Longrightarrow> Save_user_data u ps \<in> set tr \<Longrightarrow>
     \<exists>acct. (u, acct) \<in> set accts \<and> fetch_yield u acct n = Some ps \<and> ps \<noteq> []"
proof (induction accts arbitrary: d tr)
  case Nil
  then show ?case by simp
next
  case (Cons a accts)
  obtain v acct where a: "a = (v, acct)" by (cases a)
  obtain uid ev1 where g: "get_user_id (user_reply acct) v = (uid, ev1)"
    by (cases "get_user_id (user_reply acct) v")
  have ns1: "\<forall>ev\<in>set ev1. \<not> is_save ev"
    using no_save_get_user_id [of _ "user_reply acct" v] g by simp
  let ?p = "Log INFO (Processing_tweets_for_user v)"
  note run = Cons.prems(1) [unfolded a]
  show ?case
  proof (cases "uid = None \<or> uid = Some 0")
    case True
    with g run obtain tr' where
      r: "follow_users_loop accts n d = Some (res, tr')" and
      t: "tr = (?p # ev1 @ [Log WARNING (Could_not_find_user_ID v)]) @ tr'"
      by (auto simp: emit_Some)
    from t Cons.prems(2) ns1 have "Save_user_data u ps \<in> set tr'" by fastforce
    with Cons.IH [OF r] a show ?thesis by auto
  next
    case False
    then obtain i where uid: "uid = Some i" "i \<noteq> 0" by auto
    with g run obtain qs ev2 where
      t: "get_user_tweets (tweets_replies acct) i n = Some (qs, ev2)"
      by (auto split: option.splits)
    have ns2: "\<forall>ev\<in>set ev2. \<not> is_save ev"
      using no_save_loop t by (auto simp: get_user_tweets_def)
    from g uid t have y: "fetch_yield v acct n = Some qs" by (simp add: fetch_yield_def)
    note g' = g [unfolded uid(1)]
    show ?thesis
    proof (cases "qs = []")
      case True
      with t have t0: "get_user_tweets (tweets_replies acct) i n = Some ([], ev2)" by simp
      from follow_step_empty [OF g' uid(2) t0, of accts d] run
      have "emit (?p # ev1 @ ev2 @ [Log INFO (Retrieved_tweets 0 v)])
          (follow_users_loop accts n d) = Some (res, tr)"
        by (simp only:)
      then obtain tr' where
        r: "follow_users_loop accts n d = Some (res, tr')" and
        e: "tr = (?p # ev1 @ ev2 @ [Log INFO (Retrieved_tweets 0 v)]) @ tr'"
        unfolding emit_Some by blast
      from e Cons.prems(2) ns1 ns2 have "Save_user_data u ps \<in> set tr'" by fastforce
      with Cons.IH [OF r] a show ?thesis by auto
    next
      case False
      from follow_step_posts [OF g' uid(2) t False, of accts d] run
      have c: "(case save_reply acct of
           None \<Rightarrow>
             emit (?p # ev1 @ ev2 @
                     [Log INFO (Retrieved_tweets (length qs) v),
                      Save_user_data v qs,
                      Log INFO (Saved_tweets (length qs) v)])
               (follow_users_loop accts n (dict_set v qs d))
         | Some x \<Rightarrow>
             Some (Inl x, ?p # ev1 @ ev2 @
                            [Log INFO (Retrieved_tweets (length qs) v)])) = Some (res, tr)"
        by (simp only:)
      show ?thesis
      proof (cases "save_reply acct")
        case None
        with c have "emit (?p # ev1 @ ev2 @
                     [Log INFO (Retrieved_tweets (length qs) v),
                      Save_user_data v qs,
                      Log INFO (Saved_tweets (length qs) v)])
               (follow_users_loop accts n (dict_set v qs d)) = Some (res, tr)"
          by (simp only: option.case)
        then obtain tr' where
          r: "follow_users_loop accts n (dict_set v qs d) = Some (res, tr')" and
          e: "tr = (?p # ev1 @ ev2 @
                     [Log INFO (Retrieved_tweets (length qs) v),
                      Save_user_data v qs,
                      Log INFO (Saved_tweets (length qs) v)]) @ tr'"
          unfolding emit_Some by blast
        from e Cons.prems(2) ns1 ns2
        have "Save_user_data u ps = Save_user_data v qs \<or> Save_user_data u ps \<in> set tr'"
          by fastforce
        with Cons.IH [OF r] y False a show ?thesis by auto
      next
        case (Some x)
        with c have "tr = ?p # ev1 @ ev2 @ [Log INFO (Retrieved_tweets (length qs) v)]"
          by simp
        with Cons.prems(2) ns1 ns2 have False by fastforce
        then show ?thesis ..
      qed
    qed
  qed
qed

lemmas account_defs = found_def acct_error_def acct_error_disk_full_def acct_empty_def
  acct_full_def acct_unknown_def acct_unauthorized_def






text \<open>
  Claim C10. For a handle whose every configured entry resolves and yields zero posts, no
  per-account file is written in any run of \<^verbatim>\<open>follow_users\<close> that ends (with a mapping
  or with the exception of a failed write for another handle), and the handle is not a key
  of the mapping \<^verbatim>\<open>follow_users\<close> returns; every handle of the mapping maps to a
  non-empty list of records. At the step of such a handle the mapping is passed on
  unchanged and nothing is saved.
\<close>

theorem zero_post_handles_are_omitted:
  "(follow_users accts n = Some (res, tr) \<longrightarrow>
      (\<forall>u. (\<forall>acct. (u, acct) \<in> set accts \<longrightarrow> fetch_yield u acct n = Some []) \<longrightarrow>
           (\<forall>ps. Save_user_data u ps \<notin> set tr) \<and> (\<forall>d. res = Inr d \<longrightarrow> u \<notin> set (keys d))) \<and>
      (\<forall>d u ps. res = Inr d \<longrightarrow> (u, ps) \<in> set d \<longrightarrow> ps \<noteq> [])) \<and>
   (get_user_id (user_reply acct) u = (Some uid, ev1) \<and> uid \<noteq> 0 \<and>
    get_user_tweets (tweets_replies acct) uid n = Some ([], ev2) \<longrightarrow>
      follow_users_loop ((u, acct) # rest) n d0 =
        emit (Log INFO (Processing_tweets_for_user u) # ev1 @ ev2 @
                [Log INFO (Retrieved_tweets 0 u)])
          (follow_users_loop rest n d0))"
proof -
  have whole: "(\<forall>u. (\<forall>acct. (u, acct) \<in> set accts \<longrightarrow> fetch_yield u acct n = Some []) \<longrightarrow>
           (\<forall>ps. Save_user_data u ps \<notin> set tr) \<and> (\<forall>d. res = Inr d \<longrightarrow> u \<notin> set (keys d))) \<and>
      (\<forall>d u ps. res = Inr d \<longrightarrow> (u, ps) \<in> set d \<longrightarrow> ps \<noteq> [])"
    if "follow_users accts n = Some (res, tr)"
  proof -
    from that have run: "follow_users_loop accts n [] = Some (res, tr)"
      by (simp add: follow_users_def)
    have vals: "\<exists>acct. (u, acct) \<in> set accts \<and> fetch_yield u acct n = Some ps \<and> ps \<noteq> []"
      if "res = Inr d" "(u, ps) \<in> set d" for d u ps
      using follow_users_loop_values [OF run [unfolded that(1)] that(2)] by simp
    have saves: "\<exists>acct. (u, acct) \<in> set accts \<and> fetch_yield u acct n = Some ps \<and> ps \<noteq> []"
      if "Save_user_data u ps \<in> set tr" for u ps
      using follow_users_loop_saves [OF run that] .
    have "(\<forall>ps. Save_user_data u ps \<notin> set tr) \<and> (\<forall>d. res = Inr d \<longrightarrow> u \<notin> set (keys d))"
      if z: "\<forall>acct. (u, acct) \<in> set accts \<longrightarrow> fetch_yield u acct n = Some []" for u
    proof -
      have "u \<notin> set (keys d)" if rd: "res = Inr d" for d
      proof
        assume "u \<in> set (keys d)"
        then obtain ps where "(u, ps) \<in> set d" by (auto simp: keys_def)
        from vals [OF rd this] z show False by auto
      qed
      moreover have "Save_user_data u ps \<notin> set tr" for ps
        using saves [of u ps] z by auto
      ultimately show ?thesis by blast
    qed
    moreover have "ps \<noteq> []" if "res = Inr d" "(u, ps) \<in> set d" for d u ps
      using vals [OF that] by blast
    ultimately show ?thesis by blast
  qed
  have step: "follow_users_loop ((u, acct) # rest) n d0 =
        emit (Log INFO (Processing_tweets_for_user u) # ev1 @ ev2 @
                [Log INFO (Retrieved_tweets 0 u)])
          (follow_users_loop rest n d0)"
    if "get_user_id (user_reply acct) u = (Some uid, ev1) \<and> uid \<noteq> 0 \<and>
        get_user_tweets (tweets_replies acct) uid n = Some ([], ev2)"
    using that follow_step_empty [of acct u uid ev1 n ev2 rest d0] by blast
  from whole step show ?thesis by blast
qed

text \<open>
  The witness for C10: \<^verbatim>\<open>a\<close> resolves and its first page is empty, \<^verbatim>\<open>b\<close> has three
  posts.
\<close>

theorem zero_post_handles_are_omitted_witness:
  "follow_users [(''a'', acct_empty), (''b'', acct_full)] 100 =
     Some (Inr [(''b'', records_two)],
       [Log INFO (Processing_tweets_for_user ''a''), Get_user ''a'', Get_users_tweets 8 None,
        Log INFO (Retrieved_tweets 0 ''a''),
        Log INFO (Processing_tweets_for_user ''b''), Get_user ''b'', Get_users_tweets 9 None,
        Log INFO (Retrieved_tweets 3 ''b''), Save_user_data ''b'' records_two,
        Log INFO (Saved_tweets 3 ''b'')]) \<and>
   fetch_yield ''a'' acct_empty 100 = Some [] \<and>
   ''a'' \<notin> set (keys [(''b'', records_two)]) \<and>
   get_user_id (user_reply acct_empty) ''a'' = (Some 8, [Get_user ''a'']) \<and>
   (8::int) \<noteq> 0 \<and>
   get_user_tweets (tweets_replies acct_empty) 8 100 = Some ([], [Get_users_tweets 8 None]) \<and>
   records_two \<noteq> []"
proof -
  have nf: "\<not> falsy (data page_two)" "next_token (meta page_two) = None"
    by (simp_all add: page_two_def page_def falsy_def)
  have g: "get_user_id (user_reply acct_empty) ''a'' = (Some 8, [Get_user ''a''])"
    by (simp add: account_defs get_user_id_def get_user_id_try_def ebind_def attr_def alice_def)
  have t: "get_user_tweets (tweets_replies acct_empty) 8 100 = Some ([], [Get_users_tweets 8 None])"
    by (simp add: account_defs get_user_tweets_def iteration_def try_body_def falsy_def page_def)
  have y: "fetch_yield ''a'' acct_empty 100 = Some []"
    using g t by (simp add: fetch_yield_def)
  have run: "follow_users [(''a'', acct_empty), (''b'', acct_full)] 100 =
     Some (Inr [(''b'', records_two)],
       [Log INFO (Processing_tweets_for_user ''a''), Get_user ''a'', Get_users_tweets 8 None,
        Log INFO (Retrieved_tweets 0 ''a''),
        Log INFO (Processing_tweets_for_user ''b''), Get_user ''b'', Get_users_tweets 9 None,
        Log INFO (Retrieved_tweets 3 ''b''), Save_user_data ''b'' records_two,
        Log INFO (Saved_tweets 3 ''b'')])"
    using nf g t
    by (simp add: follow_users_def account_defs get_user_id_def get_user_id_try_def attr_def
        alice_def get_user_tweets_def iteration_def try_body_def ebind_def emit_def
        page_two_records records_two_def)
  have only: "\<forall>acct. (''a'', acct) \<in> set [(''a'', acct_empty), (''b'', acct_full)] \<longrightarrow>
      fetch_yield ''a'' acct 100 = Some []"
    using y by simp
  from zero_post_handles_are_omitted [of "[(''a'', acct_empty), (''b'', acct_full)]" 100
      "Inr [(''b'', records_two)]" _ acct_empty "''a''" 8 "[Get_user ''a'']" "[Get_users_tweets 8 None]"]
    run only
  have "''a'' \<notin> set (keys [(''b'', records_two)])" "records_two \<noteq> []"
    by auto
  with run y g t show ?thesis by simp
qed

text \<open>
  Claim C5, as the code has it. \<^verbatim>\<open>get_user_id\<close> returns \<^verbatim>\<open>None\<close> exactly when the
  platform reports no such handle or the lookup raises an error, whatever the error: no
  failure of the lookup reaches the caller. Both are logged at error level by
  \<^verbatim>\<open>get_user_id\<close>; \<^verbatim>\<open>follow_users\<close> then logs the warning, skips the handle and goes
  on with the next one.
\<close>

theorem lookup_failures_become_null:
  "(fst (get_user_id f u) = None \<longleftrightarrow>
      f = User_response None \<or> (\<exists>e. get_user_id_try f u = Inl e)) \<and>
   get_user_id (User_response None) u = (None, [Get_user u, Log ERROR (User_not_found u)]) \<and>
   get_user_id (User_raise e) u = (None, [Get_user u, Log ERROR (Error_getting_user_ID u e)]) \<and>
   (fst (get_user_id (user_reply acct) u) = None \<longrightarrow>
      follow_users_loop ((u, acct) # rest) n d =
        emit (Log INFO (Processing_tweets_for_user u) # snd (get_user_id (user_reply acct) u) @
                [Log WARNING (Could_not_find_user_ID u)])
          (follow_users_loop rest n d))"
proof -
  have iff: "fst (get_user_id f u) = None \<longleftrightarrow>
      f = User_response None \<or> (\<exists>e. get_user_id_try f u = Inl e)"
  proof (cases f)
    case (User_raise e)
    then show ?thesis by (simp add: get_user_id_def get_user_id_try_def)
  next
    case (User_response d)
    show ?thesis
    proof (cases d)
      case None
      with User_response show ?thesis by (simp add: get_user_id_def get_user_id_try_def)
    next
      case (Some usr)
      with User_response show ?thesis
        by (cases "user_id usr") (simp_all add: get_user_id_def get_user_id_try_def ebind_def attr_def)
    qed
  qed
  have nf: "get_user_id (User_response None) u = (None, [Get_user u, Log ERROR (User_not_found u)])"
    by (simp add: get_user_id_def get_user_id_try_def)
  have rs: "get_user_id (User_raise e) u = (None, [Get_user u, Log ERROR (Error_getting_user_ID u e)])"
    by (simp add: get_user_id_def get_user_id_try_def)
  have skip: "follow_users_loop ((u, acct) # rest) n d =
        emit (Log INFO (Processing_tweets_for_user u) # snd (get_user_id (user_reply acct) u) @
                [Log WARNING (Could_not_find_user_ID u)])
          (follow_users_loop rest n d)"
    if "fst (get_user_id (user_reply acct) u) = None"
    using that follow_step_skip [of acct u rest n d] by blast
  from iff nf rs skip show ?thesis by blast
qed

text \<open>The witness for C5: a lookup that raises an API error; the handle is skipped.\<close>

theorem lookup_failures_become_null_witness:
  "fst (get_user_id (user_reply acct_unauthorized) ''c'') = None \<and>
   get_user_id_try (user_reply acct_unauthorized) ''c'' = Inl APIError \<and>
   follow_users_loop [(''c'', acct_unauthorized)] 100 [] =
     Some (Inr [], [Log INFO (Processing_tweets_for_user ''c''), Get_user ''c'',
                Log ERROR (Error_getting_user_ID ''c'' APIError),
                Log WARNING (Could_not_find_user_ID ''c'')])"
proof -
  have t: "get_user_id_try (user_reply acct_unauthorized) ''c'' = Inl APIError"
    by (simp add: acct_unauthorized_def get_user_id_try_def)
  have r: "user_reply acct_unauthorized = User_raise APIError"
    by (simp add: acct_unauthorized_def)
  from lookup_failures_become_null [of "user_reply acct_unauthorized" "''c''" APIError
      acct_unauthorized "[]" 100 "[]"] t
  have n: "fst (get_user_id (user_reply acct_unauthorized) ''c'') = None"
    and s: "follow_users_loop [(''c'', acct_unauthorized)] 100 [] =
        emit (Log INFO (Processing_tweets_for_user ''c'') #
              snd (get_user_id (user_reply acct_unauthorized) ''c'') @
                [Log WARNING (Could_not_find_user_ID ''c'')])
          (follow_users_loop [] 100 [])"
    and g: "get_user_id (User_raise APIError) ''c'' =
        (None, [Get_user ''c'', Log ERROR (Error_getting_user_ID ''c'' APIError)])"
    by blast+
  from s g r have "follow_users_loop [(''c'', acct_unauthorized)] 100 [] =
     Some (Inr [], [Log INFO (Processing_tweets_for_user ''c''), Get_user ''c'',
                Log ERROR (Error_getting_user_ID ''c'' APIError),
                Log WARNING (Could_not_find_user_ID ''c'')])"
    by (simp add: emit_def)
  with n t show ?thesis by simp
qed

text \<open>
  The counterexample to C5 as stated: the lookup raises an API error, and
  \<^verbatim>\<open>get_user_id\<close> returns \<^verbatim>\<open>None\<close> instead of passing the error on.
\<close>

theorem lookup_error_is_not_propagated:
  "get_user_id_try (User_raise APIError) ''c'' = Inl APIError \<and>
   get_user_id (User_raise APIError) ''c'' =
     (None, [Get_user ''c'', Log ERROR (Error_getting_user_ID ''c'' APIError)])"
  by (simp add: get_user_id_def get_user_id_try_def)

text \<open>
  Claim C4, as the code has it. \<^verbatim>\<open>_load_credentials\<close> refuses to proceed whenever
  \<^verbatim>\<open>consumer_key\<close> equals its placeholder: the process exits with code 1 and the run has
  made no call to the platform. The other four fields are not compared with their
  placeholders: a file whose \<^verbatim>\<open>consumer_key\<close> is there and differs from the placeholder
  is returned as it is.
\<close>

theorem only_consumer_key_is_checked:
  "(json_subscript c ''consumer_key'' = Inr (JStr ''YOUR_CONSUMER_KEY'') \<longrightarrow>
      load_credentials (Loaded c) p =
        Exit 1 [Log ERROR (API_credentials_have_not_been_updated p)] \<and>
      main True (Loaded c) platform combined_reply =
        Some (1, [Log ERROR (API_credentials_have_not_been_updated ''twitter_credentials.json'')]) \<and>
      filter network
        [Log ERROR (API_credentials_have_not_been_updated ''twitter_credentials.json'')] = []) \<and>
   (json_subscript c ''consumer_key'' = Inr v \<and> v \<noteq> JStr ''YOUR_CONSUMER_KEY'' \<longrightarrow>
      load_credentials (Loaded c) p = Return c [])"
  by (simp add: load_credentials_def main_def scraper_init_def)

text \<open>
  The witness for C4: the sample file is refused, and a file in which only
  \<^verbatim>\<open>consumer_key\<close> was changed is accepted.
\<close>

theorem only_consumer_key_is_checked_witness:
  "json_subscript sample ''consumer_key'' = Inr (JStr ''YOUR_CONSUMER_KEY'') \<and>
   load_credentials (Loaded sample) ''twitter_credentials.json'' =
     Exit 1 [Log ERROR (API_credentials_have_not_been_updated ''twitter_credentials.json'')] \<and>
   main True (Loaded sample) (\<lambda>u. acct_full) None =
     Some (1, [Log ERROR (API_credentials_have_not_been_updated ''twitter_credentials.json'')]) \<and>
   json_subscript half_filled ''consumer_key'' = Inr (JStr ''abc123'') \<and>
   JStr ''abc123'' \<noteq> JStr ''YOUR_CONSUMER_KEY'' \<and>
   load_credentials (Loaded half_filled) ''twitter_credentials.json'' = Return half_filled []"
proof -
  have k: "json_subscript sample ''consumer_key'' = Inr (JStr ''YOUR_CONSUMER_KEY'')"
    by (simp add: sample_def subscript_def)
  have h: "json_subscript half_filled ''consumer_key'' = Inr (JStr ''abc123'')"
    "JStr ''abc123'' \<noteq> JStr ''YOUR_CONSUMER_KEY''"
    by (simp_all add: half_filled_def subscript_def)
  from only_consumer_key_is_checked [of sample "''twitter_credentials.json''" "\<lambda>u. acct_full" None] k
  have "load_credentials (Loaded sample) ''twitter_credentials.json'' =
     Exit 1 [Log ERROR (API_credentials_have_not_been_updated ''twitter_credentials.json'')]"
    "main True (Loaded sample) (\<lambda>u. acct_full) None =
     Some (1, [Log ERROR (API_credentials_have_not_been_updated ''twitter_credentials.json'')])"
    by blast+
  moreover from only_consumer_key_is_checked [where c = half_filled
      and v = "JStr ''abc123''" and p = "''twitter_credentials.json''"] h
  have "load_credentials (Loaded half_filled) ''twitter_credentials.json'' = Return half_filled []"
    by blast
  ultimately show ?thesis using k h by simp
qed

text \<open>
  The counterexample to C4 as stated: \<^verbatim>\<open>bearer_token\<close> (and three more fields) still
  equal their placeholders, the file is loaded, the client is set up, and the run goes on
  to call the platform for each of the six handles.
\<close>

theorem placeholder_bearer_token_is_accepted:
  "json_subscript half_filled ''bearer_token'' = Inr (JStr ''YOUR_BEARER_TOKEN'') \<and>
   json_subscript sample ''bearer_token'' = Inr (JStr ''YOUR_BEARER_TOKEN'') \<and>
   load_credentials (Loaded half_filled) ''twitter_credentials.json'' = Return half_filled [] \<and>
   scraper_init True (Loaded half_filled) ''twitter_credentials.json'' =
     Return half_filled [Log INFO Successfully_authenticated, Makedirs] \<and>
   map_option (\<lambda>r. (fst r, filter network (snd r)))
     (main True (Loaded half_filled) (\<lambda>u. acct_unauthorized) None) =
     Some (0, [Get_user ''elonmusk'', Get_user ''WhiteHouse'', Get_user ''realDonaldTrump'',
               Get_user ''POTUS'', Get_user ''SecDef'', Get_user ''SecRubio''])"
  by (simp add: half_filled_def sample_def subscript_def load_credentials_def scraper_init_def
      authenticate_def ebind_def main_def usernames_def follow_users_def acct_unauthorized_def
      get_user_id_def get_user_id_try_def emit_def)



end
